(* ===== verification/Prelude.thy ===== *)
theory Prelude
  imports Main "HOL-Library.Monad_Syntax"
begin

text \<open>
  What every component shares: the collections of facts the proofs draw on, names for the bytes
  of the protocol, generic lemmas on lists and options, Go's 64-bit signed integers as
  \<^typ>\<open>int\<close> with the wrap-around written out, and decimal printing and reading of numbers.
\<close>

named_theorems byte_facts "facts on the bytes a string may contain"
named_theorems frame_facts "fields an operation leaves alone"
named_theorems consume_facts "operations never lengthen the peer's script"

section \<open>Bytes\<close>

text \<open>A byte of a Go string is a \<^typ>\<open>char\<close>; \<open>code\<close> is its value.\<close>

abbreviation code :: "char \<Rightarrow> nat" where
  "code c \<equiv> of_char c"

abbreviation CR :: char where "CR \<equiv> CHR 0x0D"
abbreviation LF :: char where "LF \<equiv> CHR 0x0A"
abbreviation DQUOTE :: char where "DQUOTE \<equiv> CHR 0x22"
abbreviation BSLASH :: char where "BSLASH \<equiv> CHR 0x5C"
abbreviation SP :: char where "SP \<equiv> CHR 0x20"
abbreviation CRLF :: string where "CRLF \<equiv> [CR, LF]"

text \<open>A control byte is a C0 byte or DEL; a line is clean when it has none, single when it has no
  CR and no LF.\<close>

definition control_byte :: "char \<Rightarrow> bool" where
  "control_byte c \<longleftrightarrow> code c < 0x20 \<or> code c = 0x7F"

definition no_crlf :: "string \<Rightarrow> bool" where
  "no_crlf s \<longleftrightarrow> list_all (\<lambda>c. c \<noteq> CR \<and> c \<noteq> LF) s"

definition no_control :: "string \<Rightarrow> bool" where
  "no_control s \<longleftrightarrow> list_all (\<lambda>c. \<not> control_byte c) s"

lemma no_crlf_simps [simp]:
  "no_crlf []"
  "no_crlf (c # s) \<longleftrightarrow> c \<noteq> CR \<and> c \<noteq> LF \<and> no_crlf s"
  "no_crlf (s @ t) \<longleftrightarrow> no_crlf s \<and> no_crlf t"
  by (auto simp: no_crlf_def)

lemma no_control_simps [simp]:
  "no_control []"
  "no_control (c # s) \<longleftrightarrow> \<not> control_byte c \<and> no_control s"
  "no_control (s @ t) \<longleftrightarrow> no_control s \<and> no_control t"
  by (auto simp: no_control_def)

lemma no_control_no_crlf [byte_facts]: "no_control s \<Longrightarrow> no_crlf s"
  by (induction s) (auto simp: control_byte_def)

lemma no_crlf_concat: "no_crlf (concat xss) \<longleftrightarrow> list_all no_crlf xss"
  by (induction xss) auto

lemma no_control_concat: "no_control (concat xss) \<longleftrightarrow> list_all no_control xss"
  by (induction xss) auto

section \<open>Searching a byte\<close>

text \<open>\<open>bytes.IndexByte\<close> and \<open>strings.Index\<close> with a one-byte pattern: \<^const>\<open>None\<close> is -1.\<close>

fun index_byte :: "char \<Rightarrow> string \<Rightarrow> nat option" where
  "index_byte c [] = None"
| "index_byte c (x # xs) = (if x = c then Some 0 else map_option Suc (index_byte c xs))"

lemma index_byte_None: "index_byte c s = None \<longleftrightarrow> c \<notin> set s"
  by (induction s) auto

lemma index_byte_Some:
  "index_byte c s = Some i \<longleftrightarrow> i < length s \<and> s ! i = c \<and> c \<notin> set (take i s)"
proof (induction s arbitrary: i)
  case (Cons x xs)
  then show ?case by (cases i) auto
qed simp

lemma index_byte_append:
  "index_byte c (s @ t) =
     (case index_byte c s of Some i \<Rightarrow> Some i | None \<Rightarrow> map_option (\<lambda>i. length s + i) (index_byte c t))"
proof (induction s)
  case Nil
  show ?case by (cases "index_byte c t") simp_all
next
  case (Cons x s)
  then show ?case by (cases "index_byte c t") (auto split: option.splits)
qed

lemma index_byte_here [simp]: "c \<notin> set s \<Longrightarrow> index_byte c (s @ c # t) = Some (length s)"
  by (auto simp: index_byte_append index_byte_None [THEN iffD2])

section \<open>Go's int64\<close>

text \<open>Go's \<open>int64\<close> (and \<open>time.Duration\<close>, and \<open>int\<close> on a 64-bit machine) wraps around.\<close>

definition max_int64 :: int where
  "max_int64 = 2 ^ 63 - 1"

definition wrap64 :: "int \<Rightarrow> int" where
  "wrap64 x = (x + 2 ^ 63) mod 2 ^ 64 - 2 ^ 63"

lemma wrap64_id: "- (2 ^ 63) \<le> x \<Longrightarrow> x \<le> max_int64 \<Longrightarrow> wrap64 x = x"
  by (simp add: wrap64_def max_int64_def)

lemma wrap64_range: "- (2 ^ 63) \<le> wrap64 x \<and> wrap64 x \<le> max_int64"
  using pos_mod_bound [of "2 ^ 64" "x + 2 ^ 63"] pos_mod_sign [of "2 ^ 64" "x + 2 ^ 63"]
  by (simp add: wrap64_def max_int64_def)

section \<open>Decimal numbers\<close>

definition is_digit :: "char \<Rightarrow> bool" where
  "is_digit c \<longleftrightarrow> 48 \<le> code c \<and> code c \<le> 57"

definition digit :: "nat \<Rightarrow> char" where
  "digit d = char_of (48 + d)"

lemma code_digit [simp]: "d < 10 \<Longrightarrow> code (digit d) = 48 + d"
  by (simp add: digit_def of_char_of)

lemma is_digit_digit [simp]: "d < 10 \<Longrightarrow> is_digit (digit d)"
  by (simp add: is_digit_def)

text \<open>\<open>fmt.Sprintf("%d", n)\<close> of a number that is not negative.\<close>

fun dec_nat :: "nat \<Rightarrow> string" where
  "dec_nat n = (if n < 10 then [digit n] else dec_nat (n div 10) @ [digit (n mod 10)])"

declare dec_nat.simps [simp del]

definition dec_int :: "int \<Rightarrow> string" where
  "dec_int n = (if n < 0 then CHR ''-'' # dec_nat (nat (- n)) else dec_nat (nat n))"

text \<open>The number a digit string stands for.\<close>

definition dec_val :: "string \<Rightarrow> nat" where
  "dec_val s = foldl (\<lambda>n c. n * 10 + (code c - 48)) 0 s"

lemma dec_val_simps [simp]:
  "dec_val [] = 0"
  "dec_val (s @ [c]) = dec_val s * 10 + (code c - 48)"
  by (simp_all add: dec_val_def)

lemma dec_nat_digits: "list_all is_digit (dec_nat n)"
proof (induction n rule: dec_nat.induct)
  case (1 n)
  then show ?case by (subst dec_nat.simps) auto
qed

lemma dec_nat_nonempty [simp]: "dec_nat n \<noteq> []"
  by (subst dec_nat.simps) simp

lemma dec_val_dec_nat [simp]: "dec_val (dec_nat n) = n"
proof (induction n rule: dec_nat.induct)
  case (1 n)
  show ?case
  proof (cases "n < 10")
    case True
    then show ?thesis using dec_val_simps(2) [of "[]" "digit n"] by (subst dec_nat.simps) simp
  next
    case False
    with 1 show ?thesis by (subst dec_nat.simps) simp
  qed
qed

lemma dec_nat_no_control [byte_facts]: "no_control (dec_nat n)"
  using dec_nat_digits [of n] unfolding no_control_def
  by (auto simp: list_all_iff is_digit_def control_byte_def)

lemma dec_int_no_control [byte_facts]: "no_control (dec_int n)"
  by (simp add: dec_int_def dec_nat_no_control) (simp add: control_byte_def)

section \<open>Returning\<close>

text \<open>A step that may wait for the peer has no result when nothing ever wakes it.\<close>

definition returns :: "'a option \<Rightarrow> bool" where
  "returns m \<longleftrightarrow> m \<noteq> None"

lemma returns_Some [simp]: "returns (Some x)"
  by (simp add: returns_def)

lemma returns_bind: "returns m \<Longrightarrow> (\<And>x. m = Some x \<Longrightarrow> returns (f x)) \<Longrightarrow> returns (Option.bind m f)"
  by (cases m) (auto simp: returns_def)

text \<open>Case distinctions at the head of a result, and only there.\<close>

lemmas returns_splits [simp] =
  option.split [of returns] sum.split [of returns] list.split [of returns] prod.split [of returns]
  if_split [of returns]

lemma returnsE: "returns m \<Longrightarrow> (\<And>a b. m = Some (a, b) \<Longrightarrow> thesis) \<Longrightarrow> thesis"
  by (cases m) (auto simp: returns_def)

end
