(* ===== verification/GoStrings.thy ===== *)
theory GoStrings
  imports Prelude
begin

text \<open>
  The parts of Go's \<open>strings\<close>, \<open>unicode/utf8\<close> and \<open>unicode\<close> packages that the program uses, on
  strings as lists of bytes. A rune is its number. \<open>unicode.ToUpper\<close> above U+007F is a table of the
  Unicode standard that Go ships: it is the parameter \<open>up\<close> of \<open>ToUpper\<close>.
\<close>

section \<open>UTF-8\<close>

definition RuneError :: nat where
  "RuneError = 0xFFFD"

definition cont_byte :: "char \<Rightarrow> bool" where
  "cont_byte b \<longleftrightarrow> 0x80 \<le> code b \<and> code b \<le> 0xBF"

definition low6 :: "char \<Rightarrow> nat" where
  "low6 b = code b mod 64"

text \<open>\<open>utf8.DecodeRuneInString\<close>: the rune and its width; a byte that starts no well-formed
  sequence is \<open>RuneError\<close> of width 1.\<close>

definition decode2 :: "nat \<Rightarrow> string \<Rightarrow> nat \<times> nat" where
  "decode2 c0 r = (case r of
       b1 # _ \<Rightarrow> if cont_byte b1 then (c0 mod 32 * 64 + low6 b1, 2) else (RuneError, 1)
     | _ \<Rightarrow> (RuneError, 1))"

definition decode3 :: "nat \<Rightarrow> string \<Rightarrow> nat \<times> nat" where
  "decode3 c0 r = (case r of
       b1 # b2 # _ \<Rightarrow>
         if (if c0 = 0xE0 then 0xA0 else 0x80) \<le> code b1
            \<and> code b1 \<le> (if c0 = 0xED then 0x9F else 0xBF) \<and> cont_byte b2
         then (c0 mod 16 * 4096 + low6 b1 * 64 + low6 b2, 3) else (RuneError, 1)
     | _ \<Rightarrow> (RuneError, 1))"

definition decode4 :: "nat \<Rightarrow> string \<Rightarrow> nat \<times> nat" where
  "decode4 c0 r = (case r of
       b1 # b2 # b3 # _ \<Rightarrow>
         if (if c0 = 0xF0 then 0x90 else 0x80) \<le> code b1
            \<and> code b1 \<le> (if c0 = 0xF4 then 0x8F else 0xBF) \<and> cont_byte b2 \<and> cont_byte b3
         then (c0 mod 8 * 262144 + low6 b1 * 4096 + low6 b2 * 64 + low6 b3, 4) else (RuneError, 1)
     | _ \<Rightarrow> (RuneError, 1))"

definition decode_rune :: "string \<Rightarrow> nat \<times> nat" where
  "decode_rune s = (case s of
       [] \<Rightarrow> (RuneError, 0)
     | b0 # r \<Rightarrow>
         let c0 = code b0 in
         if c0 < 0x80 then (c0, 1)
         else if 0xC2 \<le> c0 \<and> c0 \<le> 0xDF then decode2 c0 r
         else if 0xE0 \<le> c0 \<and> c0 \<le> 0xEF then decode3 c0 r
         else if 0xF0 \<le> c0 \<and> c0 \<le> 0xF4 then decode4 c0 r
         else (RuneError, 1))"

text \<open>\<open>utf8.AppendRune\<close>: surrogates and numbers out of range are written as \<open>RuneError\<close>.\<close>

definition cont_of :: "nat \<Rightarrow> char" where
  "cont_of n = char_of (0x80 + n mod 64)"

definition encode_rune :: "nat \<Rightarrow> string" where
  "encode_rune r =
     (if r \<le> 0x7F then [char_of r]
      else if r \<le> 0x7FF then [char_of (0xC0 + r div 64), cont_of r]
      else if (0xD800 \<le> r \<and> r \<le> 0xDFFF) \<or> 0x10FFFF < r then [CHR 0xEF, CHR 0xBF, CHR 0xBD]
      else if r \<le> 0xFFFF then [char_of (0xE0 + r div 4096), cont_of (r div 64), cont_of r]
      else [char_of (0xF0 + r div 262144), cont_of (r div 4096), cont_of (r div 64), cont_of r])"

lemma decode_width_pos: "s \<noteq> [] \<Longrightarrow> 0 < snd (decode_rune s)"
  by (auto simp: decode_rune_def decode2_def decode3_def decode4_def Let_def split: list.splits)

lemma decode_width_le: "snd (decode_rune s) \<le> length s"
  by (auto simp: decode_rune_def decode2_def decode3_def decode4_def Let_def split: list.splits)

text \<open>A \<open>for _, r := range s\<close> loop: the runes of \<open>s\<close> with their widths.\<close>

function decode_all :: "string \<Rightarrow> (nat \<times> nat) list" where
  "decode_all s = (if s = [] then [] else decode_rune s # decode_all (drop (snd (decode_rune s)) s))"
  by pat_completeness auto
termination
  by (relation "measure length") (use decode_width_pos in auto)

declare decode_all.simps [simp del]

lemma decode_all_Nil [simp]: "decode_all [] = []"
  by (simp add: decode_all.simps)

lemma decode_all_step:
  "s \<noteq> [] \<Longrightarrow> decode_all s = decode_rune s # decode_all (drop (snd (decode_rune s)) s)"
  by (subst decode_all.simps) simp

definition runes :: "string \<Rightarrow> nat list" where
  "runes s = map fst (decode_all s)"

text \<open>\<open>utf8.ValidString\<close>.\<close>

definition ValidString :: "string \<Rightarrow> bool" where
  "ValidString s \<longleftrightarrow> list_all (\<lambda>p. p \<noteq> (RuneError, 1)) (decode_all s)"

text \<open>\<open>strings.Map\<close> with a mapping that drops no rune.\<close>

definition strings_Map :: "(nat \<Rightarrow> nat) \<Rightarrow> string \<Rightarrow> string" where
  "strings_Map f s = concat (map (\<lambda>r. encode_rune (f r)) (runes s))"

subsection \<open>ASCII strings\<close>

definition ascii :: "string \<Rightarrow> bool" where
  "ascii s \<longleftrightarrow> list_all (\<lambda>c. code c < 0x80) s"

lemma ascii_simps [simp]:
  "ascii []" "ascii (c # s) \<longleftrightarrow> code c < 0x80 \<and> ascii s" "ascii (s @ t) \<longleftrightarrow> ascii s \<and> ascii t"
  by (auto simp: ascii_def)

lemma decode_rune_ascii [simp]: "code c < 0x80 \<Longrightarrow> decode_rune (c # s) = (code c, 1)"
  by (simp add: decode_rune_def)

lemma decode_all_ascii_Cons [simp]:
  "code c < 0x80 \<Longrightarrow> decode_all (c # s) = (code c, 1) # decode_all s"
  by (subst decode_all_step) auto

lemma runes_Nil [simp]: "runes [] = []"
  by (simp add: runes_def)

lemma runes_ascii_Cons [simp]: "code c < 0x80 \<Longrightarrow> runes (c # s) = code c # runes s"
  by (simp add: runes_def)

lemma runes_ascii: "ascii s \<Longrightarrow> runes s = map of_char s"
  by (induction s) auto

lemma encode_rune_ascii [simp]: "code c < 0x80 \<Longrightarrow> encode_rune (code c) = [c]"
  by (simp add: encode_rune_def)

lemma ValidString_ascii: "ascii s \<Longrightarrow> ValidString s"
proof (induction s)
  case (Cons c s)
  then show ?case by (simp add: ValidString_def RuneError_def)
qed (simp add: ValidString_def)


subsection \<open>Encoding inverts decoding\<close>

text \<open>A scalar value is a code point that is not a surrogate.\<close>

definition scalar :: "nat \<Rightarrow> bool" where
  "scalar r \<longleftrightarrow> r \<le> 0x10FFFF \<and> \<not> (0xD800 \<le> r \<and> r \<le> 0xDFFF)"

lemma char_eq_of_code: "code c = n \<Longrightarrow> char_of n = c"
  by auto

lemma mod_of_offset: "k < m \<Longrightarrow> m dvd b \<Longrightarrow> (b + k) mod m = k" for k m b :: nat
  by (metis mod_add_left_eq add_0 dvd_imp_mod_0 mod_less)

lemma cont_byte_code:
  assumes "cont_byte b" shows "code b = 0x80 + low6 b"
proof -
  define k where "k = code b - 0x80"
  from assms have "code b = 0x80 + k" and "k < 64"
    unfolding cont_byte_def k_def by linarith+
  moreover have "(0x80 + k) mod 64 = k"
    using \<open>k < 64\<close> by (intro mod_of_offset) auto
  ultimately show ?thesis unfolding low6_def by simp
qed

lemma low6_less [simp]: "low6 b < 64"
  by (simp add: low6_def)

lemma cont_of_low6: "cont_byte b \<Longrightarrow> n mod 64 = low6 b \<Longrightarrow> cont_of n = b"
  unfolding cont_of_def using cont_byte_code [of b] by (metis char_of_char)

lemma cont_of_code [simp]: "code (cont_of n) = 0x80 + n mod 64"
  by (simp add: cont_of_def of_char_of)

lemma cont_of_cont [simp]: "cont_byte (cont_of n)"
  by (simp add: cont_byte_def)

lemma low6_cont_of [simp]: "low6 (cont_of n) = n mod 64"
  by (simp add: low6_def mod_of_offset)

lemma lead_code:
  fixes b c0 m :: nat
  assumes "b \<le> c0" "c0 < b + m" "m dvd b"
  shows "b + c0 mod m = c0"
proof -
  from assms obtain k where "c0 = b + k" "k < m"
    by (metis le_add_diff_inverse nat_add_left_cancel_less)
  with assms(3) show ?thesis by (simp add: mod_of_offset)
qed

lemma decode2_encode:
  assumes "decode2 c0 r = (n, w)" and "(n, w) \<noteq> (RuneError, 1)"
    and "0xC2 \<le> c0" "c0 \<le> 0xDF" "c0 = code b0"
  shows "encode_rune n = take w (b0 # r) \<and> scalar n"
proof -
  from assms(1,2) obtain b1 r' where r: "r = b1 # r'" and b1: "cont_byte b1"
      and n: "n = c0 mod 32 * 64 + low6 b1" and w: "w = 2"
    by (auto simp: decode2_def split: list.splits if_splits)
  have l: "low6 b1 < 64" by simp
  have c0: "0xC0 + c0 mod 32 = c0" using assms(3,4) by (intro lead_code) auto
  from n l have d: "n div 64 = c0 mod 32" and m: "n mod 64 = low6 b1" by simp_all
  from c0 d have lead: "char_of (0xC0 + n div 64) = b0" using assms(5) by simp
  from c0 assms(3,4) n l have "n \<le> 0x7FF" "\<not> n \<le> 0x7F" by linarith+
  then show ?thesis
    using cont_of_low6 [OF b1 m] lead by (simp add: encode_rune_def r w scalar_def)
qed

lemma split64:
  fixes a l n :: nat
  assumes "n = a * 64 + l" "l < 64" shows "n mod 64 = l" "n div 64 = a"
  using assms by simp_all

lemma decode3_encode:
  assumes "decode3 c0 r = (n, w)" and "(n, w) \<noteq> (RuneError, 1)"
    and "0xE0 \<le> c0" "c0 \<le> 0xEF" "c0 = code b0"
  shows "encode_rune n = take w (b0 # r) \<and> scalar n"
proof -
  from assms(1,2) obtain b1 b2 r' where r: "r = b1 # b2 # r'"
      and lo: "(if c0 = 0xE0 then 0xA0 else 0x80) \<le> code b1"
      and hi: "code b1 \<le> (if c0 = 0xED then 0x9F else 0xBF)" and b2: "cont_byte b2"
      and n: "n = c0 mod 16 * 4096 + low6 b1 * 64 + low6 b2" and w: "w = 3"
    by (auto simp: decode3_def split: list.splits if_splits)
  from lo hi have b1: "cont_byte b1" by (auto simp: cont_byte_def split: if_splits)
  have l: "low6 b1 < 64" "low6 b2 < 64" by simp_all
  have c0: "0xE0 + c0 mod 16 = c0" using assms(3,4) by (intro lead_code) auto
  define k where "k = c0 mod 16"
  have k: "c0 = 0xE0 + k" "k < 16" using c0 by (simp_all add: k_def)
  from n have n': "n = k * 4096 + low6 b1 * 64 + low6 b2" by (simp add: k_def)
  from n' have n3: "n = (k * 64 + low6 b1) * 64 + low6 b2" by simp
  note m2 = split64(1) [OF n3 l(2)] and d3 = split64(2) [OF n3 l(2)]
  from d3 have m1: "n div 64 mod 64 = low6 b1" using l by simp
  from n' have d: "n div 4096 = k" using l by linarith
  from d k have "code b0 = 0xE0 + n div 4096" using assms(5) by simp
  note lead = char_eq_of_code [OF this]
  have "0x800 \<le> n"
    using lo k n' cont_byte_code [OF b1] by (cases "k = 0") auto
  moreover have "n \<le> 0xFFFF" using n' l k by linarith
  moreover have "\<not> (0xD800 \<le> n \<and> n \<le> 0xDFFF)"
  proof (cases "k = 13")
    case True
    then have "low6 b1 < 0x20" using hi k cont_byte_code [OF b1] by simp
    then show ?thesis using n' l True by linarith
  next
    case False
    then consider "k \<le> 12" | "14 \<le> k" by linarith
    then have "n < 0xD800 \<or> 0xDFFF < n"
    proof cases
      case 1 then have "n < 0xD800" using n' l by linarith then show ?thesis ..
    next
      case 2 then have "0xDFFF < n" using n' by linarith then show ?thesis ..
    qed
    then show ?thesis by linarith
  qed
  ultimately show ?thesis
    using cont_of_low6 [OF b1 m1] cont_of_low6 [OF b2 m2] lead
    by (auto simp: encode_rune_def r w scalar_def)
qed

lemma decode4_encode:
  assumes "decode4 c0 r = (n, w)" and "(n, w) \<noteq> (RuneError, 1)"
    and "0xF0 \<le> c0" "c0 \<le> 0xF4" "c0 = code b0"
  shows "encode_rune n = take w (b0 # r) \<and> scalar n"
proof -
  from assms(1,2) obtain b1 b2 b3 r' where r: "r = b1 # b2 # b3 # r'"
      and lo: "(if c0 = 0xF0 then 0x90 else 0x80) \<le> code b1"
      and hi: "code b1 \<le> (if c0 = 0xF4 then 0x8F else 0xBF)" and b2: "cont_byte b2"
      and b3: "cont_byte b3"
      and n: "n = c0 mod 8 * 262144 + low6 b1 * 4096 + low6 b2 * 64 + low6 b3" and w: "w = 4"
    by (auto simp: decode4_def split: list.splits if_splits)
  from lo hi have b1: "cont_byte b1" by (auto simp: cont_byte_def split: if_splits)
  have l: "low6 b1 < 64" "low6 b2 < 64" "low6 b3 < 64" by simp_all
  have c0: "0xF0 + c0 mod 8 = c0" using assms(3,4) by (intro lead_code) auto
  define k where "k = c0 mod 8"
  have k: "c0 = 0xF0 + k" "k \<le> 4" using c0 assms(4) by (simp_all add: k_def)
  from n have n': "n = k * 262144 + low6 b1 * 4096 + low6 b2 * 64 + low6 b3" by (simp add: k_def)
  from n' have n4: "n = ((k * 64 + low6 b1) * 64 + low6 b2) * 64 + low6 b3" by simp
  note m3 = split64(1) [OF n4 l(3)] and d4 = split64(2) [OF n4 l(3)]
  note m2 = split64(1) [OF d4 l(2)]
  from n' have "n div 4096 = k * 64 + low6 b1" using l by linarith
  then have m1: "n div 4096 mod 64 = low6 b1" using l by simp
  from n' have d: "n div 262144 = k" using l by linarith
  from d k have "code b0 = 0xF0 + n div 262144" using assms(5) by simp
  note lead = char_eq_of_code [OF this]
  have "0x10000 \<le> n"
    using lo k n' cont_byte_code [OF b1] by (cases "k = 0") auto
  moreover have "n \<le> 0x10FFFF"
  proof (cases "k = 4")
    case True
    then have "low6 b1 < 0x10" using hi k cont_byte_code [OF b1] by simp
    then show ?thesis using n' l True by linarith
  next
    case False
    with k(2) have "k \<le> 3" by linarith
    then show ?thesis using n' l by linarith
  qed
  ultimately show ?thesis
    using cont_of_low6 [OF b1 m1] cont_of_low6 [OF b2 m2] cont_of_low6 [OF b3 m3] lead
    by (simp add: encode_rune_def r w scalar_def)
qed

lemma decode_rune_encode:
  assumes "s \<noteq> []" and "decode_rune s = (n, w)" and "(n, w) \<noteq> (RuneError, 1)"
  shows "encode_rune n = take w s \<and> scalar n"
proof -
  obtain b0 r where s: "s = b0 # r" using assms(1) by (cases s) auto
  consider "code b0 < 0x80" | "0xC2 \<le> code b0" "code b0 \<le> 0xDF"
    | "0xE0 \<le> code b0" "code b0 \<le> 0xEF" | "0xF0 \<le> code b0" "code b0 \<le> 0xF4"
    | "decode_rune s = (RuneError, 1)"
    by (cases "code b0 < 0x80"; cases "0xC2 \<le> code b0 \<and> code b0 \<le> 0xDF";
        cases "0xE0 \<le> code b0 \<and> code b0 \<le> 0xEF"; cases "0xF0 \<le> code b0 \<and> code b0 \<le> 0xF4")
      (simp_all add: s decode_rune_def Let_def)
  then show ?thesis
  proof cases
    case 1 then show ?thesis using assms(2) by (auto simp: s scalar_def)
  next
    case 2
    then have "decode2 (code b0) r = (n, w)" using assms(2) by (simp add: s decode_rune_def)
    from decode2_encode [OF this assms(3) 2 refl] show ?thesis by (simp add: s)
  next
    case 3
    then have "decode3 (code b0) r = (n, w)" using assms(2) by (simp add: s decode_rune_def)
    from decode3_encode [OF this assms(3) 3 refl] show ?thesis by (simp add: s)
  next
    case 4
    then have "decode4 (code b0) r = (n, w)" using assms(2) by (simp add: s decode_rune_def)
    from decode4_encode [OF this assms(3) 4 refl] show ?thesis by (simp add: s)
  next
    case 5 with assms show ?thesis by simp
  qed
qed

text \<open>The bytes of a valid string are the encodings of its runes.\<close>

lemma ValidString_runes: "ValidString s \<Longrightarrow> concat (map encode_rune (runes s)) = s"
proof (induction s rule: decode_all.induct)
  case (1 s)
  show ?case
  proof (cases "s = []")
    case False
    obtain n w where d: "decode_rune s = (n, w)" by (cases "decode_rune s")
    with False 1(2) have "(n, w) \<noteq> (RuneError, 1)" and v: "ValidString (drop w s)"
      by (auto simp: ValidString_def decode_all_step)
    then have "encode_rune n = take w s" using decode_rune_encode [OF False d] by simp
    moreover have "concat (map encode_rune (runes (drop w s))) = drop w s"
      using 1(1) [OF False] d v by simp
    ultimately show ?thesis using False d by (simp add: runes_def decode_all_step)
  qed simp
qed

lemma strings_Map_id:
  assumes "ValidString s" and "\<And>r. r \<in> set (runes s) \<Longrightarrow> f r = r"
  shows "strings_Map f s = s"
proof -
  have "map (\<lambda>r. encode_rune (f r)) (runes s) = map encode_rune (runes s)"
    using assms(2) by (intro map_cong) auto
  then show ?thesis using ValidString_runes [OF assms(1)] by (simp only: strings_Map_def)
qed

subsection \<open>Decoding inverts encoding\<close>

definition width :: "nat \<Rightarrow> nat" where
  "width r = (if r \<le> 0x7F then 1 else if r \<le> 0x7FF then 2 else if r \<le> 0xFFFF then 3 else 4)"

lemma base64_digits:
  fixes r :: nat
  shows "r div 4096 * 4096 + r div 64 mod 64 * 64 + r mod 64 = r"
    and "r div 262144 * 262144 + r div 4096 mod 64 * 4096 + r div 64 mod 64 * 64 + r mod 64 = r"
proof -
  have 1: "r div 4096 = r div 64 div 64" and 2: "r div 262144 = r div 64 div 64 div 64"
    by (simp_all add: div_mult2_eq [symmetric])
  show "r div 4096 * 4096 + r div 64 mod 64 * 64 + r mod 64 = r"
    unfolding 1 using div_mult_mod_eq [of r 64] div_mult_mod_eq [of "r div 64" 64] by linarith
  show "r div 262144 * 262144 + r div 4096 mod 64 * 4096 + r div 64 mod 64 * 64 + r mod 64 = r"
    unfolding 1 2 using div_mult_mod_eq [of r 64] div_mult_mod_eq [of "r div 64" 64]
      div_mult_mod_eq [of "r div 64 div 64" 64] by linarith
qed

lemma decode_encode_rune:
  assumes "scalar r"
  shows "decode_rune (encode_rune r @ t) = (r, width r) \<and> length (encode_rune r) = width r"
proof -
  consider "r \<le> 0x7F" | "0x7F < r" "r \<le> 0x7FF" | "0x7FF < r" "r \<le> 0xFFFF" | "0xFFFF < r"
    by linarith
  then show ?thesis
  proof cases
    case 1
    then show ?thesis by (simp add: encode_rune_def decode_rune_def width_def of_char_of)
  next
    case 2
    define a where "a = r div 64"
    have a: "2 \<le> a" "a < 32" using 2 by (simp_all add: a_def)
    have r: "a * 64 + r mod 64 = r" by (simp add: a_def)
    have "(0xC0 + a) mod 32 = a" using a by (intro mod_of_offset) auto
    with a r 2 show ?thesis
      by (simp add: encode_rune_def decode_rune_def decode2_def width_def of_char_of
          a_def [symmetric])
  next
    case 3
    define a b where "a = r div 4096" and "b = r div 64 mod 64"
    have a: "a < 16" using 3 by (simp add: a_def)
    have b: "b < 64" by (simp add: b_def)
    have r: "a * 4096 + b * 64 + r mod 64 = r"
      unfolding a_def b_def by (rule base64_digits(1))
    have m: "r mod 64 < 64" by simp
    have lo: "a = 0 \<Longrightarrow> 0x20 \<le> b" using r 3 m by linarith
    have hi: "b \<le> 0x1F" if "a = 13"
    proof -
      from r that b m have "r \<le> 0xDFFF" by linarith
      with assms have "r < 0xD800" by (auto simp: scalar_def)
      then show ?thesis using r that by linarith
    qed
    have "(0xE0 + a) mod 16 = a" using a by (intro mod_of_offset) auto
    with a b r lo hi 3 assms show ?thesis
      by (auto simp: encode_rune_def decode_rune_def decode3_def width_def of_char_of scalar_def
          a_def [symmetric] b_def [symmetric])
  next
    case 4
    define a b c where "a = r div 262144" and "b = r div 4096 mod 64" and "c = r div 64 mod 64"
    have a: "a \<le> 4" using assms by (simp add: a_def scalar_def) linarith
    have b: "b < 64" "c < 64" by (simp_all add: b_def c_def)
    have r: "a * 262144 + b * 4096 + c * 64 + r mod 64 = r"
      unfolding a_def b_def c_def by (rule base64_digits(2))
    have m: "r mod 64 < 64" by simp
    have lo: "a = 0 \<Longrightarrow> 0x10 \<le> b" using r 4 m b by linarith
    have hi: "a = 4 \<Longrightarrow> b \<le> 0xF" using r assms m unfolding scalar_def by linarith
    have "(0xF0 + a) mod 8 = a" using a by (intro mod_of_offset) auto
    with a b r lo hi 4 assms show ?thesis
      by (auto simp: encode_rune_def decode_rune_def decode4_def width_def of_char_of scalar_def
          a_def [symmetric] b_def [symmetric] c_def [symmetric])
  qed
qed

lemma encode_rune_nonempty [simp]: "encode_rune r \<noteq> []"
  by (simp add: encode_rune_def)

lemma runes_encode_rune: "scalar r \<Longrightarrow> runes (encode_rune r @ t) = r # runes t"
  using decode_encode_rune [of r t]
  by (simp add: runes_def decode_all_step [of "encode_rune r @ t"])

lemma runes_encode: "list_all scalar rs \<Longrightarrow> runes (concat (map encode_rune rs)) = rs"
  by (induction rs) (simp_all add: runes_encode_rune)

lemma decode_rune_scalar: "scalar (fst (decode_rune s))"
proof (cases "s = [] \<or> decode_rune s = (RuneError, 1)")
  case True
  then show ?thesis by (auto simp: decode_rune_def scalar_def RuneError_def)
next
  case False
  then show ?thesis using decode_rune_encode [of s] by (cases "decode_rune s") auto
qed

lemma runes_scalar: "list_all scalar (runes s)"
proof (induction s rule: decode_all.induct)
  case (1 s)
  then show ?case
    by (cases "s = []") (simp_all add: runes_def decode_all_step decode_rune_scalar)
qed

lemma runes_strings_Map:
  assumes "\<And>r. scalar r \<Longrightarrow> scalar (f r)"
  shows "runes (strings_Map f s) = map f (runes s)"
proof -
  have "list_all scalar (map f (runes s))"
    using runes_scalar [of s] assms by (auto simp: list_all_iff)
  from runes_encode [OF this] show ?thesis by (simp add: strings_Map_def comp_def)
qed

text \<open>Above ASCII an encoding holds bytes above ASCII only.\<close>

lemma encode_rune_high: "0x7F < r \<Longrightarrow> c \<in> set (encode_rune r) \<Longrightarrow> 0x80 \<le> code c"
  by (auto simp: encode_rune_def of_char_of split: if_splits)

section \<open>Trimming and case\<close>

text \<open>\<open>unicode.IsSpace\<close>.\<close>

definition IsSpace :: "nat \<Rightarrow> bool" where
  "IsSpace r \<longleftrightarrow> (9 \<le> r \<and> r \<le> 13) \<or> r = 0x20 \<or> r = 0x85 \<or> r = 0xA0 \<or> r = 0x1680
     \<or> (0x2000 \<le> r \<and> r \<le> 0x200A) \<or> r = 0x2028 \<or> r = 0x2029 \<or> r = 0x202F \<or> r = 0x205F
     \<or> r = 0x3000"

function TrimLeft :: "string \<Rightarrow> string" where
  "TrimLeft s =
     (if s \<noteq> [] \<and> IsSpace (fst (decode_rune s)) then TrimLeft (drop (snd (decode_rune s)) s) else s)"
  by pat_completeness auto
termination
  by (relation "measure length") (use decode_width_pos in auto)

text \<open>\<open>utf8.DecodeLastRuneInString\<close>: the last byte that can start a rune, at most four bytes from
  the end, decides.\<close>

definition last_start :: "string \<Rightarrow> nat" where
  "last_start s =
     (case List.find (\<lambda>i. \<not> cont_byte (s ! i)) (rev [length s - 4 ..< length s - 1]) of
        Some i \<Rightarrow> i
      | None \<Rightarrow> length s - 5)"

definition decode_last_rune :: "string \<Rightarrow> nat \<times> nat" where
  "decode_last_rune s =
     (if s = [] then (RuneError, 0)
      else if code (last s) < 0x80 then (code (last s), 1)
      else (let start = last_start s; (r, w) = decode_rune (drop start s)
            in if start + w = length s then (r, w) else (RuneError, 1)))"

lemma last_start_less: "s \<noteq> [] \<Longrightarrow> last_start s < length s"
proof (cases "List.find (\<lambda>i. \<not> cont_byte (s ! i)) (rev [length s - 4 ..< length s - 1])")
  case (Some i)
  then obtain j where "j < length (rev [length s - 4 ..< length s - 1])"
      and "i = rev [length s - 4 ..< length s - 1] ! j"
    unfolding find_Some_iff by blast
  then have "i \<in> set (rev [length s - 4 ..< length s - 1])" by (metis nth_mem)
  with Some show ?thesis by (auto simp: last_start_def)
qed (simp add: last_start_def)

lemma decode_last_width: "s \<noteq> [] \<Longrightarrow> 0 < snd (decode_last_rune s)"
proof -
  assume "s \<noteq> []"
  then have "last_start s < length s"
    by (rule last_start_less)
  then have "drop (last_start s) s \<noteq> []" by simp
  from decode_width_pos [OF this] show ?thesis
    by (auto simp: decode_last_rune_def Let_def \<open>s \<noteq> []\<close> split: prod.splits)
qed

function TrimRight :: "string \<Rightarrow> string" where
  "TrimRight s =
     (if s \<noteq> [] \<and> IsSpace (fst (decode_last_rune s))
      then TrimRight (take (length s - snd (decode_last_rune s)) s) else s)"
  by pat_completeness auto
termination
  by (relation "measure length") (use decode_last_width in \<open>auto simp: diff_less\<close>)

declare TrimLeft.simps [simp del] TrimRight.simps [simp del]

definition TrimSpace :: "string \<Rightarrow> string" where
  "TrimSpace s = TrimRight (TrimLeft s)"

definition ascii_space :: "char \<Rightarrow> bool" where
  "ascii_space c \<longleftrightarrow> (9 \<le> code c \<and> code c \<le> 13) \<or> code c = 0x20"

lemma ascii_space_simps [simp]:
  "ascii_space SP" "ascii_space CR" "ascii_space LF" "\<not> ascii_space DQUOTE"
  by (simp_all add: ascii_space_def)

lemma IsSpace_ascii: "code c < 0x80 \<Longrightarrow> IsSpace (code c) \<longleftrightarrow> ascii_space c"
  by (auto simp: IsSpace_def ascii_space_def)

lemma ascii_space_ascii: "ascii_space c \<Longrightarrow> code c < 0x80"
  by (auto simp: ascii_space_def)

lemma TrimLeft_Nil [simp]: "TrimLeft [] = []"
  by (simp add: TrimLeft.simps)

lemma TrimRight_Nil [simp]: "TrimRight [] = []"
  by (simp add: TrimRight.simps)

lemma TrimLeft_space [simp]: "ascii_space c \<Longrightarrow> TrimLeft (c # s) = TrimLeft s"
  by (subst TrimLeft.simps) (simp add: ascii_space_ascii IsSpace_ascii)

lemma TrimLeft_ascii [simp]: "code c < 0x80 \<Longrightarrow> \<not> ascii_space c \<Longrightarrow> TrimLeft (c # s) = c # s"
  by (subst TrimLeft.simps) (simp add: IsSpace_ascii)

lemma decode_last_rune_ascii: "code c < 0x80 \<Longrightarrow> decode_last_rune (s @ [c]) = (code c, 1)"
  by (simp add: decode_last_rune_def)

lemma TrimRight_space [simp]: "ascii_space c \<Longrightarrow> TrimRight (s @ [c]) = TrimRight s"
  by (subst TrimRight.simps) (simp add: ascii_space_ascii decode_last_rune_ascii IsSpace_ascii)

lemma TrimRight_ascii [simp]:
  "code c < 0x80 \<Longrightarrow> \<not> ascii_space c \<Longrightarrow> TrimRight (s @ [c]) = s @ [c]"
  by (subst TrimRight.simps) (simp add: decode_last_rune_ascii IsSpace_ascii)

lemma TrimLeft_suffix: "\<exists>p. s = p @ TrimLeft s"
proof (induction s rule: TrimLeft.induct)
  case (1 s)
  show ?case
  proof (cases "s \<noteq> [] \<and> IsSpace (fst (decode_rune s))")
    case True
    let ?w = "snd (decode_rune s)"
    from 1 [OF True] obtain p where "drop ?w s = p @ TrimLeft (drop ?w s)" by blast
    moreover have "TrimLeft s = TrimLeft (drop ?w s)" using True by (subst TrimLeft.simps) simp
    ultimately have "s = (take ?w s @ p) @ TrimLeft s"
      using append_take_drop_id [of ?w s] by simp
    then show ?thesis by blast
  next
    case False
    then show ?thesis by (subst TrimLeft.simps) auto
  qed
qed

lemma TrimRight_prefix: "\<exists>p. s = TrimRight s @ p"
proof (induction s rule: TrimRight.induct)
  case (1 s)
  show ?case
  proof (cases "s \<noteq> [] \<and> IsSpace (fst (decode_last_rune s))")
    case True
    let ?t = "take (length s - snd (decode_last_rune s)) s"
    from 1 [OF True] obtain p where "?t = TrimRight ?t @ p" by blast
    moreover have "TrimRight s = TrimRight ?t" using True by (subst TrimRight.simps) simp
    ultimately have "s = TrimRight s @ p @ drop (length s - snd (decode_last_rune s)) s"
      using append_take_drop_id [of "length s - snd (decode_last_rune s)" s]
      by (metis append.assoc)
    then show ?thesis by blast
  next
    case False
    then show ?thesis by (subst TrimRight.simps) auto
  qed
qed

lemma TrimSpace_infix: "\<exists>p q. s = p @ TrimSpace s @ q"
  unfolding TrimSpace_def using TrimLeft_suffix [of s] TrimRight_prefix [of "TrimLeft s"]
  by metis

lemma length_TrimSpace: "length (TrimSpace s) \<le> length s"
proof -
  obtain p q where "s = p @ TrimSpace s @ q" using TrimSpace_infix by blast
  then have "length s = length p + length (TrimSpace s) + length q"
    by (metis add.assoc length_append)
  then show ?thesis by simp
qed

lemma set_TrimSpace: "set (TrimSpace s) \<subseteq> set s"
proof -
  obtain p q where "s = p @ TrimSpace s @ q" using TrimSpace_infix by blast
  then have "set s = set p \<union> set (TrimSpace s) \<union> set q"
    by (metis set_append sup_assoc)
  then show ?thesis by blast
qed

text \<open>A text that starts and ends with visible ASCII bytes is its own trimmed form, and so it is
  with the line terminator behind it.\<close>

definition edged :: "string \<Rightarrow> bool" where
  "edged s \<longleftrightarrow> s = [] \<or> (code (hd s) < 0x80 \<and> \<not> ascii_space (hd s)
                       \<and> code (last s) < 0x80 \<and> \<not> ascii_space (last s))"

lemma TrimLeft_edged: "edged s \<Longrightarrow> s \<noteq> [] \<Longrightarrow> TrimLeft (s @ t) = s @ t"
  by (cases s) (auto simp: edged_def)

lemma TrimRight_edged: "edged s \<Longrightarrow> TrimRight s = s"
  by (cases s rule: rev_cases) (auto simp: edged_def)

lemma TrimSpace_edged: "edged s \<Longrightarrow> TrimSpace s = s"
  by (cases "s = []") (use TrimLeft_edged [of s "[]"] TrimRight_edged in \<open>auto simp: TrimSpace_def\<close>)

lemma TrimSpace_edged_CRLF: "edged s \<Longrightarrow> TrimSpace (s @ CRLF) = s"
proof -
  assume e: "edged s"
  have r: "TrimRight (s @ CRLF) = TrimRight s"
    using TrimRight_space [of LF "s @ [CR]"] TrimRight_space [of CR s] by simp
  show ?thesis
  proof (cases "s = []")
    case False
    with e r show ?thesis by (simp add: TrimSpace_def TrimLeft_edged TrimRight_edged)
  qed (simp add: TrimSpace_def)
qed

lemma TrimSpace_Nil [simp]: "TrimSpace [] = []"
  by (simp add: TrimSpace_def)

text \<open>\<open>strings.ToUpper\<close>; \<open>up\<close> is Go's Unicode table above U+007F.\<close>

definition upper_rune :: "(nat \<Rightarrow> nat) \<Rightarrow> nat \<Rightarrow> nat" where
  "upper_rune up r = (if r \<le> 0x7F then (if 97 \<le> r \<and> r \<le> 122 then r - 32 else r) else up r)"

definition ToUpper :: "(nat \<Rightarrow> nat) \<Rightarrow> string \<Rightarrow> string" where
  "ToUpper up s = strings_Map (upper_rune up) s"

definition upper_case :: "char \<Rightarrow> bool" where
  "upper_case c \<longleftrightarrow> code c < 0x80 \<and> \<not> (97 \<le> code c \<and> code c \<le> 122)"

lemma ToUpper_upper: "list_all upper_case s \<Longrightarrow> ToUpper up s = s"
  unfolding ToUpper_def
  by (rule strings_Map_id, rule ValidString_ascii)
     (auto simp: ascii_def list_all_iff upper_case_def runes_ascii upper_rune_def)

section \<open>Prefixes, suffixes, splitting and replacing\<close>

definition HasPrefix :: "string \<Rightarrow> string \<Rightarrow> bool" where
  "HasPrefix s p \<longleftrightarrow> take (length p) s = p"

definition HasSuffix :: "string \<Rightarrow> string \<Rightarrow> bool" where
  "HasSuffix s p \<longleftrightarrow> length p \<le> length s \<and> drop (length s - length p) s = p"

definition TrimPrefix :: "string \<Rightarrow> string \<Rightarrow> string" where
  "TrimPrefix s p = (if HasPrefix s p then drop (length p) s else s)"

definition TrimSuffix :: "string \<Rightarrow> string \<Rightarrow> string" where
  "TrimSuffix s p = (if HasSuffix s p then take (length s - length p) s else s)"

lemma HasPrefix_append [simp]: "HasPrefix (p @ s) p"
  by (simp add: HasPrefix_def)

lemma HasSuffix_append [simp]: "HasSuffix (s @ p) p"
  by (simp add: HasSuffix_def)

lemma TrimPrefix_append [simp]: "TrimPrefix (p @ s) p = s"
  by (simp add: TrimPrefix_def)

lemma TrimSuffix_append [simp]: "TrimSuffix (s @ p) p = s"
  by (simp add: TrimSuffix_def)

lemma HasSuffix_last: "HasSuffix (s @ [c]) [d] \<longleftrightarrow> c = d"
  by (simp add: HasSuffix_def)

text \<open>\<open>strings.SplitN(s, sep, 2)\<close> for a one-byte separator: the part before the first separator and,
  when there is one, the rest.\<close>

definition SplitN2 :: "char \<Rightarrow> string \<Rightarrow> string \<times> string option" where
  "SplitN2 c s = (case index_byte c s of
       None \<Rightarrow> (s, None)
     | Some i \<Rightarrow> (take i s, Some (drop (Suc i) s)))"

lemma SplitN2_append [simp]: "c \<notin> set s \<Longrightarrow> SplitN2 c (s @ c # t) = (s, Some t)"
  by (simp add: SplitN2_def)

lemma SplitN2_none: "c \<notin> set s \<Longrightarrow> SplitN2 c s = (s, None)"
  by (simp add: SplitN2_def index_byte_None [THEN iffD2])

text \<open>\<open>strings.Split\<close> with a one-byte separator.\<close>

fun Split :: "char \<Rightarrow> string \<Rightarrow> string list" where
  "Split c [] = [[]]"
| "Split c (x # xs) =
     (if x = c then [] # Split c xs
      else (case Split c xs of [] \<Rightarrow> [[x]] | y # ys \<Rightarrow> (x # y) # ys))"

lemma Split_nosep: "c \<notin> set s \<Longrightarrow> Split c s = [s]"
  by (induction s) auto

lemma Split_append: "c \<notin> set s \<Longrightarrow> Split c (s @ c # t) = s # Split c t"
  by (induction s) auto

fun Join :: "string list \<Rightarrow> string \<Rightarrow> string" where
  "Join [] sep = []"
| "Join [s] sep = s"
| "Join (s # t # ts) sep = s @ sep @ Join (t # ts) sep"

text \<open>\<open>strings.ReplaceAll\<close> of one byte by a text.\<close>

definition ReplaceByte :: "string \<Rightarrow> char \<Rightarrow> string \<Rightarrow> string" where
  "ReplaceByte s c t = concat (map (\<lambda>x. if x = c then t else [x]) s)"

lemma ReplaceByte_simps [simp]:
  "ReplaceByte [] c t = []"
  "ReplaceByte (x # s) c t = (if x = c then t else [x]) @ ReplaceByte s c t"
  "ReplaceByte (s @ s') c t = ReplaceByte s c t @ ReplaceByte s' c t"
  by (simp_all add: ReplaceByte_def)

end
