(* ===== verification/GoBase64.thy ===== *)
theory GoBase64
  imports GoStrings
begin

text \<open>
  Go's \<open>base64.StdEncoding\<close>: the standard alphabet, padding required, CR and LF skipped by the
  decoder, trailing bits not checked.
\<close>

definition b64_char :: "nat \<Rightarrow> char" where
  "b64_char n =
     (if n < 26 then char_of (65 + n)
      else if n < 52 then char_of (97 + (n - 26))
      else if n < 62 then char_of (48 + (n - 52))
      else if n = 62 then CHR ''+'' else CHR ''/'')"

definition b64_val :: "char \<Rightarrow> nat option" where
  "b64_val c =
     (let n = code c in
      if 65 \<le> n \<and> n \<le> 90 then Some (n - 65)
      else if 97 \<le> n \<and> n \<le> 122 then Some (n - 97 + 26)
      else if 48 \<le> n \<and> n \<le> 57 then Some (n - 48 + 52)
      else if n = 43 then Some 62 else if n = 47 then Some 63 else None)"

abbreviation PAD :: char where "PAD \<equiv> CHR ''=''"

fun EncodeToString :: "string \<Rightarrow> string" where
  "EncodeToString [] = []"
| "EncodeToString [a] =
     [b64_char (code a div 4), b64_char (code a mod 4 * 16), PAD, PAD]"
| "EncodeToString [a, b] =
     [b64_char (code a div 4), b64_char (code a mod 4 * 16 + code b div 16),
      b64_char (code b mod 16 * 4), PAD]"
| "EncodeToString (a # b # c # s) =
     [b64_char (code a div 4), b64_char (code a mod 4 * 16 + code b div 16),
      b64_char (code b mod 16 * 4 + code c div 64), b64_char (code c mod 64)] @ EncodeToString s"

text \<open>One quantum: four letters, or a padded last quantum with nothing behind it.\<close>

fun decode_quanta :: "string \<Rightarrow> string option" where
  "decode_quanta [] = Some []"
| "decode_quanta (a # b # c # d # s) =
     (case (b64_val a, b64_val b) of
        (Some x, Some y) \<Rightarrow>
          (case (b64_val c, b64_val d) of
             (Some z, Some w) \<Rightarrow>
               map_option (\<lambda>r. char_of (x * 4 + y div 16) # char_of (y mod 16 * 16 + z div 4)
                               # char_of (z mod 4 * 64 + w) # r) (decode_quanta s)
           | (Some z, None) \<Rightarrow>
               if d = PAD \<and> s = [] then Some [char_of (x * 4 + y div 16), char_of (y mod 16 * 16 + z div 4)]
               else None
           | (None, _) \<Rightarrow>
               if c = PAD \<and> d = PAD \<and> s = [] then Some [char_of (x * 4 + y div 16)] else None)
      | _ \<Rightarrow> None)"
| "decode_quanta _ = None"

definition DecodeString :: "string \<Rightarrow> string option" where
  "DecodeString s = decode_quanta (filter (\<lambda>c. c \<noteq> CR \<and> c \<noteq> LF) s)"

lemma b64_val_char [simp]: "n < 64 \<Longrightarrow> b64_val (b64_char n) = Some n"
  by (auto simp: b64_val_def b64_char_def of_char_of Let_def)

lemma b64_val_PAD [simp]: "b64_val PAD = None"
  by (simp add: b64_val_def)

definition b64_safe :: "char \<Rightarrow> bool" where
  "b64_safe c \<longleftrightarrow> c = PAD \<or> b64_val c \<noteq> None"

lemma b64_safe_char [simp]: "n < 64 \<Longrightarrow> b64_safe (b64_char n)"
  by (simp add: b64_safe_def)

lemma b64_safe_byte: "b64_safe c \<Longrightarrow> 43 \<le> code c \<and> code c \<le> 122 \<and> code c \<noteq> 92"
  by (auto simp: b64_safe_def b64_val_def Let_def split: if_splits)

lemma code_div4 [simp]: "code a div 4 < 64"
  using nat_of_char_less_256 [of a] by linarith

lemma code_div16: "code a div 16 < 16"
  using nat_of_char_less_256 [of a] by linarith

lemma code_div64: "code a div 64 < 4"
  using nat_of_char_less_256 [of a] by linarith

lemma EncodeToString_safe: "list_all b64_safe (EncodeToString s)"
proof (induction s rule: EncodeToString.induct)
  case (3 a b)
  then show ?case using code_div16 [of b] by (simp add: b64_safe_def)
next
  case (4 a b c s)
  then show ?case using code_div16 [of b] code_div64 [of c] by (simp add: b64_safe_def)
qed (simp_all add: b64_safe_def)

lemma quanta_Encode: "decode_quanta (EncodeToString s) = Some s"
proof (induction s rule: EncodeToString.induct)
  case (2 a)
  then show ?case by simp
next
  case (3 a b)
  then show ?case using code_div16 [of b] by simp
next
  case (4 a b c s)
  then show ?case using code_div16 [of b] code_div64 [of c] by simp
qed simp

lemma Decode_Encode: "DecodeString (EncodeToString s) = Some s"
proof -
  have "\<And>c. b64_safe c \<Longrightarrow> c \<noteq> CR \<and> c \<noteq> LF" using b64_safe_byte by fastforce
  then have "filter (\<lambda>c. c \<noteq> CR \<and> c \<noteq> LF) (EncodeToString s) = EncodeToString s"
    using EncodeToString_safe [of s] by (auto simp: filter_id_conv list_all_iff)
  then show ?thesis by (simp add: DecodeString_def quanta_Encode)
qed

end
