(* ===== verification/Wire.thy ===== *)
theory Wire
  imports GoBase64
begin

text \<open>
  The package \<open>managesieve\<close>: the wire types and helpers shared by server and client
  (\<open>managesieve/managesieve.go\<close>, \<open>managesieve/extensions.go\<close>).
\<close>

section \<open>Wire types\<close>

record ScriptInfo =
  si_Name :: string
  si_Active :: bool

record Capability =
  cap_Name :: string
  cap_Value :: string
  cap_HasValue :: bool

section \<open>Quoted strings and text hygiene\<close>

definition Quote :: "string \<Rightarrow> string" where
  "Quote s =
     (let s1 = ReplaceByte s BSLASH [BSLASH, BSLASH];
          s2 = ReplaceByte s1 DQUOTE [BSLASH, DQUOTE]
      in [DQUOTE] @ s2 @ [DQUOTE])"

definition sanitize_rune :: "nat \<Rightarrow> nat" where
  "sanitize_rune r = (if r < 0x20 \<or> r = 0x7F then 0x20 else r)"

definition SanitizeText :: "string \<Rightarrow> string" where
  "SanitizeText s = strings_Map sanitize_rune s"

text \<open>The loop over the runes of a script name: true at the first control character.\<close>

fun has_control_rune :: "nat list \<Rightarrow> bool" where
  "has_control_rune [] = False"
| "has_control_rune (r # rs) =
     (if r < 0x20 \<or> r = 0x7F \<or> (0x80 \<le> r \<and> r \<le> 0x9F) then True else has_control_rune rs)"

text \<open>The error is its text; \<^const>\<open>None\<close> is nil.\<close>

definition ValidateScriptName :: "string \<Rightarrow> string option" where
  "ValidateScriptName name =
     (if name = [] then Some ''script name cannot be empty''
      else if \<not> ValidString name then Some ''script name must be valid UTF-8''
      else if has_control_rune (runes name) then Some ''script name must not contain control characters''
      else None)"

section \<open>Extension lists\<close>

definition SupportedExtensions :: "string list" where
  "SupportedExtensions =
     [''fileinto'', ''envelope'', ''encoded-character'',
      ''comparator-i;octet'', ''comparator-i;ascii-casemap'', ''comparator-i;ascii-numeric'',
      ''comparator-i;unicode-casemap'',
      ''imap4flags'', ''variables'', ''relational'', ''vacation'', ''copy'', ''regex'', ''date'',
      ''index'', ''mailbox'', ''subaddress'', ''body'', ''mime'', ''foreverypart'', ''extracttext'',
      ''reject'', ''ereject'', ''editheader'']"

definition DefaultEnabledExtensions :: "string list" where
  "DefaultEnabledExtensions =
     [''fileinto'', ''envelope'', ''encoded-character'',
      ''comparator-i;octet'', ''comparator-i;ascii-casemap'', ''comparator-i;ascii-numeric'',
      ''comparator-i;unicode-casemap'',
      ''imap4flags'', ''variables'', ''relational'', ''vacation'', ''copy'', ''regex'', ''date'',
      ''index'', ''mailbox'', ''subaddress'', ''body'', ''mime'', ''foreverypart'', ''extracttext'',
      ''reject'', ''ereject'']"

text \<open>The map of the supported extensions, built by a loop, and the loop that sorts the given names
  into valid and invalid ones.\<close>

definition supportedMap :: "string \<Rightarrow> bool" where
  "supportedMap = foldl (\<lambda>m ext. m(ext := True)) (\<lambda>_. False) SupportedExtensions"

definition FilterExtensions :: "string list \<Rightarrow> string list \<times> string list" where
  "FilterExtensions extensions =
     (if extensions = [] then ([], [])
      else foldl (\<lambda>(valid, invalid) ext.
                    if supportedMap ext then (valid @ [ext], invalid) else (valid, invalid @ [ext]))
             ([], []) extensions)"

definition GetSieveCapabilities :: "string list \<Rightarrow> string list" where
  "GetSieveCapabilities supportedExtensions = supportedExtensions"

section \<open>Facts\<close>

definition esc :: "char \<Rightarrow> string" where
  "esc c = (if c = BSLASH \<or> c = DQUOTE then [BSLASH, c] else [c])"

lemma Quote_esc: "Quote s = DQUOTE # concat (map esc s) @ [DQUOTE]"
proof -
  have "ReplaceByte (ReplaceByte s BSLASH [BSLASH, BSLASH]) DQUOTE [BSLASH, DQUOTE]
        = concat (map esc s)"
    by (induction s) (auto simp: esc_def)
  then show ?thesis by (simp add: Quote_def)
qed

lemma Quote_no_control [byte_facts]: "no_control s \<Longrightarrow> no_control (Quote s)"
  unfolding Quote_esc by (induction s) (auto simp: esc_def control_byte_def)

lemma Quote_no_crlf [byte_facts]: "no_crlf s \<Longrightarrow> no_crlf (Quote s)"
  unfolding Quote_esc by (induction s) (auto simp: esc_def)

lemma Quote_edged [simp]: "edged (Quote s)"
  by (simp add: Quote_esc edged_def)

lemma Quote_nonempty [simp]: "Quote s \<noteq> []"
  by (simp add: Quote_esc)

lemma sanitize_rune_scalar: "scalar r \<Longrightarrow> scalar (sanitize_rune r)"
  by (auto simp: sanitize_rune_def scalar_def)

lemma encode_sanitize_clean: "no_control (encode_rune (sanitize_rune r))"
proof (cases "r \<le> 0x7F")
  case True
  then show ?thesis
    by (auto simp: sanitize_rune_def encode_rune_def control_byte_def of_char_of)
next
  case False
  then have s: "sanitize_rune r = r" by (simp add: sanitize_rune_def)
  have "\<And>c. c \<in> set (encode_rune r) \<Longrightarrow> 0x80 \<le> code c"
    by (rule encode_rune_high [of r]) (use False in simp_all)
  then show ?thesis unfolding s no_control_def list_all_iff by (fastforce simp: control_byte_def)
qed

lemma SanitizeText_no_control [byte_facts]: "no_control (SanitizeText s)"
  by (auto simp: SanitizeText_def strings_Map_def no_control_concat list_all_iff encode_sanitize_clean)

lemma SanitizeText_no_crlf [byte_facts]: "no_crlf (SanitizeText s)"
  by (simp add: no_control_no_crlf SanitizeText_no_control)

lemma QuoteSanitize_no_crlf [byte_facts]: "no_crlf (Quote (SanitizeText s))"
  by (simp add: byte_facts)

lemma runes_SanitizeText: "runes (SanitizeText s) = map sanitize_rune (runes s)"
  unfolding SanitizeText_def by (rule runes_strings_Map) (rule sanitize_rune_scalar)

lemma has_control_rune_iff:
  "has_control_rune rs \<longleftrightarrow> (\<exists>r\<in>set rs. r < 0x20 \<or> r = 0x7F \<or> (0x80 \<le> r \<and> r \<le> 0x9F))"
  by (induction rs) auto

lemma SanitizeText_valid:
  assumes "ValidString s" and "\<not> has_control_rune (runes s)"
  shows "SanitizeText s = s"
  unfolding SanitizeText_def using assms
  by (intro strings_Map_id) (auto simp: has_control_rune_iff sanitize_rune_def)

lemma ValidateScriptName_None:
  "ValidateScriptName name = None \<longleftrightarrow>
     name \<noteq> [] \<and> ValidString name \<and> \<not> has_control_rune (runes name)"
  by (auto simp: ValidateScriptName_def)

lemma supportedMap_iff: "supportedMap ext \<longleftrightarrow> ext \<in> set SupportedExtensions"
proof -
  have "\<And>m. foldl (\<lambda>m ext. m(ext := True)) m es ext \<longleftrightarrow> m ext \<or> ext \<in> set es" for es
    by (induction es) auto
  then show ?thesis by (simp add: supportedMap_def)
qed

lemma FilterExtensions_filter:
  "FilterExtensions es = (filter supportedMap es, filter (\<lambda>e. \<not> supportedMap e) es)"
proof -
  have "foldl (\<lambda>(valid, invalid) ext.
           if supportedMap ext then (valid @ [ext], invalid) else (valid, invalid @ [ext])) (v, i) es
        = (v @ filter supportedMap es, i @ filter (\<lambda>e. \<not> supportedMap e) es)" for v i
    by (induction es arbitrary: v i) auto
  then show ?thesis by (simp add: FilterExtensions_def)
qed

section \<open>Readers of quoted strings\<close>

text \<open>What the server's and the client's parsers rely on of a routine that reads back what \<open>Quote\<close>
  wrote, and of one that finds the closing quote; each side has routines of its own.\<close>

locale unquoter =
  fixes unq :: "string \<Rightarrow> string"
  assumes unq_Quote: "unq (Quote s) = s"
    and unq_bare: "s = [] \<or> hd s \<noteq> DQUOTE \<Longrightarrow> unq s = s"
begin

lemma unq_args: "map unq (map Quote as) = as"
  by (simp add: comp_def unq_Quote)

lemma Quote_inj: "Quote s = Quote t \<longleftrightarrow> s = t"
  by (metis unq_Quote)

end

locale quote_scanner = unquoter +
  fixes closing :: "string \<Rightarrow> nat option"
  assumes closing_Quote: "closing (Quote s @ t) = Some (length (Quote s) - 1)"
begin

lemma split_quoted:
  assumes "closing (Quote s @ t) = Some i"
  shows "take (i + 1) (Quote s @ t) = Quote s" "drop (i + 1) (Quote s @ t) = t"
    "unq (take (i + 1) (Quote s @ t)) = s"
proof -
  have "i + 1 = length (Quote s)" using assms by (simp add: closing_Quote) (simp add: Quote_esc)
  then show "take (i + 1) (Quote s @ t) = Quote s" "drop (i + 1) (Quote s @ t) = t" by simp_all
  then show "unq (take (i + 1) (Quote s @ t)) = s" by (simp add: unq_Quote)
qed

end

section \<open>Properties\<close>

text \<open>Text that went through \<open>SanitizeText\<close> holds no C0 byte and no DEL, whatever bytes it was
  made of, so no CR, LF or NUL can reach a response line through it; a second pass changes nothing.\<close>

lemma SanitizeText_safe:
  "no_control (SanitizeText s) \<and> no_crlf (SanitizeText s)
   \<and> SanitizeText (SanitizeText s) = SanitizeText s"
proof -
  have "SanitizeText (SanitizeText s) = SanitizeText s"
    unfolding SanitizeText_def [of "SanitizeText s"] strings_Map_def runes_SanitizeText
    by (simp add: SanitizeText_def strings_Map_def comp_def sanitize_rune_def if_distrib cong: if_cong)
  then show ?thesis by (simp add: byte_facts)
qed

text \<open>C36. \<open>ValidateScriptName\<close> accepts exactly the non-empty valid UTF-8 names without C0, DEL and C1
  characters, and a name it accepts is listed unchanged: \<open>SanitizeText\<close> leaves it alone.\<close>

theorem ValidateScriptName_accepts:
  "(ValidateScriptName name = None \<longleftrightarrow>
      name \<noteq> [] \<and> ValidString name
      \<and> \<not> (\<exists>r\<in>set (runes name). r < 0x20 \<or> r = 0x7F \<or> (0x80 \<le> r \<and> r \<le> 0x9F)))
   \<and> (ValidateScriptName name = None \<longrightarrow> SanitizeText name = name \<and> no_control name)"
  using SanitizeText_valid [of name] SanitizeText_no_control [of name]
  by (auto simp: ValidateScriptName_None has_control_rune_iff)

theorem ValidateScriptName_accepts_witness:
  "ValidateScriptName ''inbox'' = None \<and> SanitizeText ''inbox'' = ''inbox''"
proof -
  have "ValidateScriptName ''inbox'' = None"
    by (simp add: ValidateScriptName_def ValidString_ascii runes_ascii)
  with ValidateScriptName_accepts [of "''inbox''"] show ?thesis by simp
qed

text \<open>\<open>FilterExtensions\<close> splits the given names, in their order and with their repetitions, into
  those of \<open>SupportedExtensions\<close> and the others; the default list is all valid and leaves out
  \<open>editheader\<close>.\<close>

lemma FilterExtensions_partition:
  "FilterExtensions es =
     ([e\<leftarrow>es. e \<in> set SupportedExtensions], [e\<leftarrow>es. e \<notin> set SupportedExtensions])
   \<and> snd (FilterExtensions DefaultEnabledExtensions) = []
   \<and> ''editheader'' \<notin> set DefaultEnabledExtensions"
proof -
  have "\<forall>e\<in>set DefaultEnabledExtensions. e \<in> set SupportedExtensions"
    by (simp add: DefaultEnabledExtensions_def SupportedExtensions_def)
  moreover have sm: "supportedMap = (\<lambda>e. e \<in> set SupportedExtensions)"
    by (simp add: fun_eq_iff supportedMap_iff)
  moreover have "''editheader'' \<notin> set DefaultEnabledExtensions"
    by (simp add: DefaultEnabledExtensions_def)
  ultimately show ?thesis
    unfolding FilterExtensions_filter sm by (simp add: filter_empty_conv)
qed

end
