(* ===== verification/Errors.thy ===== *)
theory Errors
  imports Wire
begin

text \<open>
  Errors as values (\<open>managesieveserver/errors.go\<close>): the library's own \<open>*Error\<close>, its sentinels, the
  errors of the reading layer, and the wrapping of one error in another that \<open>errors.Is\<close> and
  \<open>errors.As\<close> look through.
\<close>

section \<open>The error values\<close>

record Error =
  err_Code :: string
  err_Message :: string
  err_Close :: bool

datatype goerr =
    PlainErr string
  | MsErr Error
  | ErrCloseConnection
  | ErrSilentReject
  | WrapErr string goerr
  | ErrLineTooLong
  | ErrMissingCRLF
  | ErrBufferFull
  | EOF
  | UnexpectedEOF
  | TimeoutErr
  | NetErr

text \<open>\<open>errors.As(err, &merr)\<close> with a \<open>*Error\<close> target, \<open>errors.Is\<close>, and the timeout test of
  \<open>net.Error\<close>.\<close>

fun as_Error :: "goerr \<Rightarrow> Error option" where
  "as_Error (MsErr e) = Some e"
| "as_Error (WrapErr _ e) = as_Error e"
| "as_Error _ = None"

fun errors_Is :: "goerr \<Rightarrow> goerr \<Rightarrow> bool" where
  "errors_Is (WrapErr t e) x \<longleftrightarrow> WrapErr t e = x \<or> errors_Is e x"
| "errors_Is e x \<longleftrightarrow> e = x"

fun isTimeout :: "goerr \<Rightarrow> bool" where
  "isTimeout TimeoutErr = True"
| "isTimeout (WrapErr _ e) = isTimeout e"
| "isTimeout _ = False"

section \<open>Rendering\<close>

definition stripCRLF :: "string \<Rightarrow> string" where
  "stripCRLF s = (if \<not> (CR \<in> set s \<or> LF \<in> set s) then s else filter (\<lambda>c. c \<noteq> CR \<and> c \<noteq> LF) s)"

definition wireMessage :: "(nat \<Rightarrow> nat) \<Rightarrow> Error \<Rightarrow> string" where
  "wireMessage up e =
     (let msg = (if err_Message e = [] then ''internal error'' else err_Message e) in
      if err_Code e = [] then stripCRLF msg
      else ''('' @ ToUpper up (err_Code e) @ '') '' @ Quote (SanitizeText msg))"

text \<open>\<open>err.Error()\<close>. The texts of the network errors are Go's own and reach no client: only errors a
  session returned are rendered.\<close>

fun err_text :: "(nat \<Rightarrow> nat) \<Rightarrow> goerr \<Rightarrow> string" where
  "err_text up (PlainErr t) = t"
| "err_text up (MsErr e) = wireMessage up e"
| "err_text up ErrCloseConnection = ''managesieveserver: close connection''"
| "err_text up ErrSilentReject = ''managesieveserver: silently reject connection''"
| "err_text up (WrapErr t e) = t"
| "err_text up ErrLineTooLong = ''managesieveserver: line too long''"
| "err_text up ErrMissingCRLF = ''managesieveserver: line not terminated by CRLF''"
| "err_text up ErrBufferFull = ''bufio: buffer full''"
| "err_text up EOF = ''EOF''"
| "err_text up UnexpectedEOF = ''unexpected EOF''"
| "err_text up TimeoutErr = ''i/o timeout''"
| "err_text up NetErr = ''connection reset by peer''"

section \<open>Facts\<close>

lemma stripCRLF_filter: "stripCRLF s = filter (\<lambda>c. c \<noteq> CR \<and> c \<noteq> LF) s"
  by (auto simp: stripCRLF_def intro!: filter_True [symmetric])

lemma stripCRLF_no_crlf [byte_facts]: "no_crlf (stripCRLF s)"
  by (auto simp: stripCRLF_filter no_crlf_def list_all_iff)

lemma stripCRLF_id: "no_crlf s \<Longrightarrow> stripCRLF s = s"
  by (auto simp: stripCRLF_filter no_crlf_def list_all_iff filter_id_conv)

lemma isTimeout_as_Error: "isTimeout e \<Longrightarrow> as_Error e = None"
  by (induction e) auto

end
