(* ===== verification/NetIO.thy ===== *)
theory NetIO
  imports Errors
begin

text \<open>
  The socket and its buffers. What the peer does is a script of events: bytes that arrive, pauses,
  silence for good, a reset, a cancellation by the server's own \<open>Close\<close> (or, on the client, of the
  context) that lands while the connection reads, and a TLS handshake with what follows inside the
  encrypted stream. The end of the script is the end of the peer's data. The record \<open>netio\<close> holds the
  script, Go's \<open>bufio.Reader\<close> and \<open>bufio.Writer\<close>, the clock and the deadlines; connections extend it.
  A read or write that nothing ever wakes has no result: \<^const>\<open>None\<close>.
\<close>

section \<open>The peer\<close>

datatype net_ev =
    Data string
  | Wait nat
  | Stall
  | Reset
  | Cancel
  | TlsHello string "net_ev list"

text \<open>How the peer takes what is written: all of it, or only so many more bytes and then nothing
  (a full window), or so many and then a reset.\<close>

datatype peer_write = Accepts | StallsAfter nat | ResetsAfter nat

record netio =
  inp :: "net_ev list"
  rbuf :: string
  sent :: string
  wbuf :: string
  werr :: "goerr option"
  wplan :: peer_write
  wtimeout :: int
  now :: int
  rdl :: "int option"
  wdl :: "int option"
  poisoned :: bool
  cancelled :: bool
  tlsPending :: bool

text \<open>The size of the buffer of \<open>bufio.NewReader\<close>.\<close>

definition bufio_size :: nat where
  "bufio_size = 4096"

lemma bufio_size_pos [simp]: "0 < bufio_size"
  by (simp add: bufio_size_def)

section \<open>Deadlines\<close>

text \<open>\<open>conn.go\<close>: \<open>setReadDeadline\<close>, \<open>setDeadline\<close> and \<open>forceReadUnblock\<close>; \<^const>\<open>None\<close> is the zero
  time.\<close>

definition setReadDeadline :: "int option \<Rightarrow> 'a netio_scheme \<Rightarrow> 'a netio_scheme" where
  "setReadDeadline t c = (if poisoned c then c else c\<lparr>rdl := t\<rparr>)"

definition setDeadline :: "int option \<Rightarrow> 'a netio_scheme \<Rightarrow> 'a netio_scheme" where
  "setDeadline t c = (if poisoned c then c else c\<lparr>rdl := t, wdl := t\<rparr>)"

definition forceReadUnblock :: "'a netio_scheme \<Rightarrow> 'a netio_scheme" where
  "forceReadUnblock c = c\<lparr>poisoned := True, rdl := Some (now c)\<rparr>"

definition expired :: "int option \<Rightarrow> int \<Rightarrow> bool" where
  "expired dl t = (case dl of None \<Rightarrow> False | Some d \<Rightarrow> d \<le> t)"

section \<open>Reading the socket\<close>

text \<open>Silence for good: the read ends at its deadline, or never.\<close>

definition silence :: "net_ev list \<Rightarrow> 'a netio_scheme \<Rightarrow> ((goerr + string) \<times> 'a netio_scheme) option" where
  "silence es c = (case rdl c of
       None \<Rightarrow> None
     | Some d \<Rightarrow> Some (Inl TimeoutErr, c\<lparr>inp := es, now := d\<rparr>))"

fun read_evs :: "nat \<Rightarrow> net_ev list \<Rightarrow> 'a netio_scheme
    \<Rightarrow> ((goerr + string) \<times> 'a netio_scheme) option" where
  "read_evs k [] c =
     (if expired (rdl c) (now c) then Some (Inl TimeoutErr, c\<lparr>inp := []\<rparr>)
      else Some (Inl EOF, c\<lparr>inp := []\<rparr>))"
| "read_evs k (e # es) c =
     (if expired (rdl c) (now c) then Some (Inl TimeoutErr, c\<lparr>inp := e # es\<rparr>)
      else case e of
        Data s \<Rightarrow>
          if s = [] then read_evs k es c
          else Some (Inr (take k s), c\<lparr>inp := Data (drop k s) # es\<rparr>)
      | Wait n \<Rightarrow>
          let t = now c + int n in
          (case rdl c of
             Some d \<Rightarrow>
               if d \<le> t then Some (Inl TimeoutErr, c\<lparr>inp := Wait (nat (t - d)) # es, now := d\<rparr>)
               else read_evs k es (c\<lparr>now := t\<rparr>)
           | None \<Rightarrow> read_evs k es (c\<lparr>now := t\<rparr>))
      | Stall \<Rightarrow> silence (Stall # es) c
      | Reset \<Rightarrow> Some (Inl NetErr, c\<lparr>inp := Reset # es\<rparr>)
      | Cancel \<Rightarrow>
          Some (Inl TimeoutErr, forceReadUnblock (c\<lparr>inp := es, cancelled := True\<rparr>))
      | TlsHello h inner \<Rightarrow>
          if h = [] then silence [Stall] c
          else Some (Inr (take k h), c\<lparr>inp := [Data (drop k h), Stall]\<rparr>))"

definition net_read :: "nat \<Rightarrow> 'a netio_scheme \<Rightarrow> ((goerr + string) \<times> 'a netio_scheme) option" where
  "net_read k c = read_evs k (inp c) c"

text \<open>What is left of the script, as a number, and the plain bytes it still delivers.\<close>

fun ev_cost :: "net_ev \<Rightarrow> nat" where
  "ev_cost (Data s) = 1 + length s"
| "ev_cost (TlsHello h inner) = 4 + length h + sum_list (map ev_cost inner)"
| "ev_cost _ = 1"

definition evs_cost :: "net_ev list \<Rightarrow> nat" where
  "evs_cost es = sum_list (map ev_cost es)"

lemma evs_cost_simps [simp]:
  "evs_cost [] = 0" "evs_cost (e # es) = ev_cost e + evs_cost es"
  by (simp_all add: evs_cost_def)

definition cost :: "'a netio_scheme \<Rightarrow> nat" where
  "cost c = evs_cost (inp c) + length (rbuf c)"

fun stream :: "net_ev list \<Rightarrow> string" where
  "stream [] = []"
| "stream (Data s # es) = s @ stream es"
| "stream (Wait _ # es) = stream es"
| "stream (Cancel # es) = stream es"
| "stream (TlsHello h _ # es) = h"
| "stream (_ # es) = []"

definition pending :: "'a netio_scheme \<Rightarrow> string" where
  "pending c = rbuf c @ stream (inp c)"

text \<open>A read leaves the writer and everything beyond the socket alone.\<close>

definition read_frame :: "'a netio_scheme \<Rightarrow> 'a netio_scheme \<Rightarrow> bool" where
  "read_frame c c' \<longleftrightarrow> netio.more c' = netio.more c \<and> sent c' = sent c \<and> wbuf c' = wbuf c
     \<and> werr c' = werr c \<and> wplan c' = wplan c \<and> wtimeout c' = wtimeout c \<and> wdl c' = wdl c
     \<and> now c \<le> now c' \<and> (cancelled c \<longrightarrow> cancelled c') \<and> (poisoned c \<longrightarrow> poisoned c')
     \<and> tlsPending c' = tlsPending c"

lemma read_frame_refl [simp]: "read_frame c c"
  by (simp add: read_frame_def)

lemma read_frame_trans: "read_frame a b \<Longrightarrow> read_frame b c \<Longrightarrow> read_frame a c"
  by (auto simp: read_frame_def)

lemma read_frame_upd [simp]:
  "read_frame (c\<lparr>inp := i\<rparr>) c' \<longleftrightarrow> read_frame c c'"
  "read_frame (c\<lparr>rbuf := b\<rparr>) c' \<longleftrightarrow> read_frame c c'"
  "read_frame (c\<lparr>rdl := d\<rparr>) c' \<longleftrightarrow> read_frame c c'"
  "read_frame c (c'\<lparr>inp := i\<rparr>) \<longleftrightarrow> read_frame c c'"
  "read_frame c (c'\<lparr>rbuf := b\<rparr>) \<longleftrightarrow> read_frame c c'"
  "read_frame c (c'\<lparr>rdl := d\<rparr>) \<longleftrightarrow> read_frame c c'"
  by (simp_all add: read_frame_def)

lemma read_evs_facts:
  assumes "read_evs k es c = Some (r, c')" and "0 < k"
  shows "read_frame c c' \<and> rbuf c' = rbuf c \<and>
    (case r of
       Inr d \<Rightarrow> d \<noteq> [] \<and> length d \<le> k \<and> stream es = d @ stream (inp c') \<and>
               evs_cost (inp c') + length d \<le> evs_cost es
     | Inl e \<Rightarrow> stream es = stream (inp c') \<and> evs_cost (inp c') \<le> evs_cost es)"
  using assms
proof (induction k es c rule: read_evs.induct)
  case (1 k c)
  then show ?case by (auto simp: read_frame_def split: if_splits)
next
  case (2 k e es c)
  show ?case
  proof (cases "expired (rdl c) (now c)")
    case True
    with 2 show ?thesis by (auto simp: read_frame_def)
  next
    case False
    show ?thesis
    proof (cases e)
      case (Data s)
      then show ?thesis
        using 2(1) [OF False Data] 2(4,5) False by (fastforce split: if_splits sum.splits)
    next
      case (Wait n)
      let ?t = "now c + int n"
      show ?thesis
      proof (cases "rdl c")
        case None
        with Wait False 2(4) have "read_evs k es (c\<lparr>now := ?t\<rparr>) = Some (r, c')" by simp
        from 2(2) [OF False Wait refl None this 2(5)] show ?thesis
          using Wait by (auto simp: read_frame_def split: sum.splits)
      next
        case (Some d)
        show ?thesis
        proof (cases "d \<le> ?t")
          case True
          with Wait Some False 2(4) show ?thesis by (auto simp: read_frame_def expired_def)
        next
          case nd: False
          with Wait Some False 2(4) have "read_evs k es (c\<lparr>now := ?t\<rparr>) = Some (r, c')" by simp
          from 2(3) [OF False Wait refl Some nd this 2(5)] show ?thesis
            using Wait by (auto simp: read_frame_def split: sum.splits)
        qed
      qed
    next
      case Stall
      with 2(4) False show ?thesis
        by (auto simp: silence_def read_frame_def expired_def split: option.splits)
    next
      case Cancel
      with 2(4) False show ?thesis by (auto simp: read_frame_def forceReadUnblock_def)
    next
      case (TlsHello h inner)
      with 2(4,5) False show ?thesis
        by (auto simp: silence_def read_frame_def expired_def split: option.splits if_splits)
    qed (use 2(4) False in \<open>auto simp: read_frame_def\<close>)
  qed
qed

text \<open>A read under a deadline returns.\<close>

lemma silence_deadline: "rdl c \<noteq> None \<Longrightarrow> silence es c \<noteq> None"
  by (auto simp: silence_def)

lemma read_evs_deadline: "rdl c \<noteq> None \<Longrightarrow> read_evs k es c \<noteq> None"
proof (induction k es c rule: read_evs.induct)
  case (2 k e es c)
  then show ?case
    by (auto simp: silence_def Let_def split: net_ev.splits option.splits if_splits)
qed simp

lemmas net_read_facts = read_evs_facts [of _ "inp c" c for c, folded net_read_def]

lemma read_evs_rdl: "read_evs k es c = Some (r, c') \<Longrightarrow> rdl c \<noteq> None \<Longrightarrow> rdl c' \<noteq> None"
proof (induction k es c rule: read_evs.induct)
  case (2 k e es c)
  then show ?case
    by (auto simp: silence_def forceReadUnblock_def Let_def
        split: net_ev.splits option.splits if_splits)
qed (auto split: if_splits)

lemma net_read_rdl: "net_read k c = Some (r, c') \<Longrightarrow> rdl c \<noteq> None \<Longrightarrow> rdl c' \<noteq> None"
  unfolding net_read_def by (rule read_evs_rdl)

lemma net_read_deadline: "rdl c \<noteq> None \<Longrightarrow> net_read k c \<noteq> None"
  by (simp add: net_read_def read_evs_deadline)

lemma net_read_data:
  assumes "net_read k c = Some (Inr d, c')" and "0 < k"
  shows "d \<noteq> []" "length d \<le> k" "stream (inp c) = d @ stream (inp c')"
    "evs_cost (inp c') + length d \<le> evs_cost (inp c)" "rbuf c' = rbuf c" "read_frame c c'"
  using net_read_facts [OF assms] by auto

lemma net_read_fail:
  assumes "net_read k c = Some (Inl e, c')" and "0 < k"
  shows "stream (inp c) = stream (inp c')" "evs_cost (inp c') \<le> evs_cost (inp c)"
    "rbuf c' = rbuf c" "read_frame c c'"
  using net_read_facts [OF assms] by auto

section \<open>bufio.Reader\<close>

text \<open>\<open>ReadSlice('\\n')\<close>: the buffered bytes up to the first LF; with no LF the buffer is filled by one
  more read, until it is full.\<close>

function ReadSlice :: "'a netio_scheme \<Rightarrow> ((string \<times> goerr option) \<times> 'a netio_scheme) option" where
  "ReadSlice c =
     (case index_byte LF (rbuf c) of
        Some i \<Rightarrow> Some ((take (Suc i) (rbuf c), None), c\<lparr>rbuf := drop (Suc i) (rbuf c)\<rparr>)
      | None \<Rightarrow>
          if bufio_size \<le> length (rbuf c)
          then Some ((rbuf c, Some ErrBufferFull), c\<lparr>rbuf := []\<rparr>)
          else (case net_read (bufio_size - length (rbuf c)) c of
              None \<Rightarrow> None
            | Some (Inl e, c') \<Rightarrow> Some ((rbuf c', Some e), c'\<lparr>rbuf := []\<rparr>)
            | Some (Inr d, c') \<Rightarrow> ReadSlice (c'\<lparr>rbuf := rbuf c' @ d\<rparr>)))"
  by pat_completeness auto
termination
proof (relation "measure (\<lambda>c. evs_cost (inp c))", goal_cases)
  case (2 c a b d c')
  then have "0 < bufio_size - length (rbuf c)" by simp
  from net_read_data [OF _ this] 2 show ?case
    by (metis (no_types, lifting) add_le_same_cancel1 in_measure le_neq_implies_less
        length_greater_0_conv netio.select_convs(1) netio.surjective netio.update_convs(2)
        add_leD1 not_less)
qed simp

declare ReadSlice.simps [simp del]

text \<open>The case analysis every fact about \<open>ReadSlice\<close> goes by.\<close>

lemma ReadSlice_cases:
  assumes "ReadSlice c = Some ((s, err), c')"
  obtains
    (line) i where "index_byte LF (rbuf c) = Some i" "s = take (Suc i) (rbuf c)" "err = None"
      "c' = c\<lparr>rbuf := drop (Suc i) (rbuf c)\<rparr>"
  | (full) "index_byte LF (rbuf c) = None" "bufio_size \<le> length (rbuf c)" "s = rbuf c"
      "err = Some ErrBufferFull" "c' = c\<lparr>rbuf := []\<rparr>"
  | (fail) e c1 where "index_byte LF (rbuf c) = None" "length (rbuf c) < bufio_size"
      "net_read (bufio_size - length (rbuf c)) c = Some (Inl e, c1)" "s = rbuf c1" "err = Some e"
      "c' = c1\<lparr>rbuf := []\<rparr>"
  | (more) d c1 where "index_byte LF (rbuf c) = None" "length (rbuf c) < bufio_size"
      "net_read (bufio_size - length (rbuf c)) c = Some (Inr d, c1)"
      "ReadSlice (c1\<lparr>rbuf := rbuf c1 @ d\<rparr>) = Some ((s, err), c')"
  using assms by (subst (asm) ReadSlice.simps) (auto split: option.splits if_splits sum.splits)

lemma read_evs_errors: "read_evs k es c = Some (Inl e, c') \<Longrightarrow> e \<in> {EOF, TimeoutErr, NetErr}"
proof (induction k es c rule: read_evs.induct)
  case (2 k e' es c)
  then show ?case
    by (auto simp: silence_def Let_def split: net_ev.splits option.splits if_splits)
qed (auto split: if_splits)

lemma net_read_errors: "net_read k c = Some (Inl e, c') \<Longrightarrow> e \<in> {EOF, TimeoutErr, NetErr}"
  unfolding net_read_def by (rule read_evs_errors)

text \<open>What \<open>ReadSlice\<close> returns is the front of the pending bytes; without an error it ends at the
  first LF, with one it holds no LF and leaves the buffer empty.\<close>

definition slice_ok :: "string \<Rightarrow> goerr option \<Rightarrow> 'a netio_scheme \<Rightarrow> bool" where
  "slice_ok s err c' \<longleftrightarrow> (case err of
       None \<Rightarrow> (\<exists>t. s = t @ [LF] \<and> LF \<notin> set t)
     | Some e \<Rightarrow> LF \<notin> set s \<and> rbuf c' = [] \<and> e \<in> {ErrBufferFull, EOF, TimeoutErr, NetErr}
                \<and> (e = ErrBufferFull \<longrightarrow> bufio_size \<le> length s))"

lemma index_byte_split:
  assumes "index_byte c s = Some i"
  shows "take (Suc i) s = take i s @ [c]" "c \<notin> set (take i s)" "i < length s"
  using assms by (auto simp: index_byte_Some take_Suc_conv_app_nth)

lemma ReadSlice_facts:
  assumes "ReadSlice c = Some ((s, err), c')"
  shows "read_frame c c' \<and> pending c = s @ pending c' \<and> cost c' + length s \<le> cost c
    \<and> slice_ok s err c'"
  using assms
proof (induction c arbitrary: s err c' rule: ReadSlice.induct)
  case (1 c)
  from 1(2) show ?case
  proof (cases rule: ReadSlice_cases)
    case (line i)
    with index_byte_split [OF line(1)] append_take_drop_id [of "Suc i" "rbuf c"] show ?thesis
      by (auto simp: pending_def cost_def slice_ok_def)
  next
    case full
    then show ?thesis by (auto simp: pending_def cost_def slice_ok_def index_byte_None)
  next
    case (fail e c1)
    then have k: "0 < bufio_size - length (rbuf c)" by simp
    from net_read_fail [OF fail(3) k] net_read_errors [OF fail(3)] fail show ?thesis
      by (auto simp: pending_def cost_def slice_ok_def index_byte_None)
  next
    case (more d c1)
    then have k: "0 < bufio_size - length (rbuf c)" by simp
    note r = net_read_data [OF more(3) k]
    from more have "\<not> bufio_size \<le> length (rbuf c)" by simp
    from 1(1) [OF more(1) this more(3) refl refl more(4)] r show ?thesis
      by (auto simp: pending_def cost_def intro: read_frame_trans)
  qed
qed

lemma ReadSlice_deadline: "rdl c \<noteq> None \<Longrightarrow> ReadSlice c \<noteq> None"
proof (induction c rule: ReadSlice.induct)
  case (1 c)
  show ?case
  proof (cases "index_byte LF (rbuf c) = None \<and> \<not> bufio_size \<le> length (rbuf c)")
    case False
    then show ?thesis by (subst ReadSlice.simps) (auto split: option.splits)
  next
    case True
    obtain r c1 where n: "net_read (bufio_size - length (rbuf c)) c = Some (r, c1)"
      using net_read_deadline [OF 1(2)] by fastforce
    show ?thesis
    proof (cases r)
      case (Inl e)
      with True n show ?thesis by (subst ReadSlice.simps) auto
    next
      case (Inr d)
      have "rdl c1 \<noteq> None" using net_read_rdl [OF n] 1(2) by simp
      with True n Inr 1(1) show ?thesis by (subst ReadSlice.simps) auto
    qed
  qed
qed

lemma ReadSlice_rdl: "ReadSlice c = Some ((s, err), c') \<Longrightarrow> rdl c \<noteq> None \<longrightarrow> rdl c' \<noteq> None"
proof (induction c arbitrary: s err c' rule: ReadSlice.induct)
  case (1 c)
  from 1(2) show ?case
  proof (cases rule: ReadSlice_cases)
    case (fail e c1)
    with net_read_rdl [OF fail(3)] show ?thesis by simp
  next
    case (more d c1)
    then have "\<not> bufio_size \<le> length (rbuf c)" by simp
    from 1(1) [OF more(1) this more(3) refl refl more(4)] net_read_rdl [OF more(3)]
    show ?thesis by simp
  qed simp_all
qed

subsection \<open>A peer that only sends\<close>

text \<open>A script of data alone, read before any deadline: no read fails before the data end.\<close>

fun is_Data :: "net_ev \<Rightarrow> bool" where
  "is_Data (Data _) = True"
| "is_Data _ = False"

definition quiet :: "'a netio_scheme \<Rightarrow> bool" where
  "quiet c \<longleftrightarrow> list_all is_Data (inp c) \<and> \<not> expired (rdl c) (now c)"

lemma read_evs_quiet:
  assumes "list_all is_Data es" "\<not> expired (rdl c) (now c)"
  shows "\<exists>r i. read_evs k es c = Some (r, c\<lparr>inp := i\<rparr>) \<and> list_all is_Data i
    \<and> (case r of Inl e \<Rightarrow> e = EOF \<and> i = [] | Inr d \<Rightarrow> True)"
  using assms
proof (induction k es c rule: read_evs.induct)
  case (1 k c)
  then show ?case by auto
next
  case (2 k e es c)
  from 2(4) obtain s where e: "e = Data s" by (cases e) auto
  show ?case
  proof (cases "s = []")
    case True
    with 2(1) [OF 2(5) e True] 2(4,5) e show ?thesis by auto
  next
    case False
    with 2(4,5) e show ?thesis by auto
  qed
qed

lemma ReadSlice_quiet:
  assumes "quiet c"
  shows "\<exists>s err i b. ReadSlice c = Some ((s, err), c\<lparr>inp := i, rbuf := b\<rparr>)
    \<and> list_all is_Data i \<and> err \<in> {None, Some ErrBufferFull, Some EOF} \<and> (err = Some EOF \<longrightarrow> i = [] \<and> b = [])"
  using assms
proof (induction c rule: ReadSlice.induct)
  case (1 c)
  show ?case
  proof (cases "index_byte LF (rbuf c)")
    case (Some i)
    then show ?thesis using 1(2) by (subst ReadSlice.simps) (auto simp: quiet_def intro!: exI)
  next
    case None
    show ?thesis
    proof (cases "bufio_size \<le> length (rbuf c)")
      case True
      with None 1(2) show ?thesis by (subst ReadSlice.simps) (auto simp: quiet_def intro!: exI)
    next
      case False
      let ?k = "bufio_size - length (rbuf c)"
      from 1(2) have q: "list_all is_Data (inp c)" "\<not> expired (rdl c) (now c)"
        by (auto simp: quiet_def)
      obtain r i where n: "net_read ?k c = Some (r, c\<lparr>inp := i\<rparr>)" and i: "list_all is_Data i"
        and r: "case r of Inl e \<Rightarrow> e = EOF \<and> i = [] | Inr d \<Rightarrow> True"
        using read_evs_quiet [of "inp c" c ?k, OF q] by (auto simp: net_read_def)
      show ?thesis
      proof (cases r)
        case (Inl e)
        with None False n r show ?thesis by (subst ReadSlice.simps) (auto intro!: exI)
      next
        case (Inr d)
        have "quiet (c\<lparr>inp := i, rbuf := rbuf c @ d\<rparr>)" using i q by (simp add: quiet_def)
        with 1(1) [OF None False n refl Inr]
        obtain s err i' b where "ReadSlice (c\<lparr>inp := i, rbuf := rbuf c @ d\<rparr>)
             = Some ((s, err), c\<lparr>inp := i', rbuf := b\<rparr>)"
          and "list_all is_Data i'" "err \<in> {None, Some ErrBufferFull, Some EOF}"
              "err = Some EOF \<longrightarrow> i' = [] \<and> b = []"
          by (auto simp del: insert_iff)
        with None False n Inr show ?thesis by (subst ReadSlice.simps) (auto intro!: exI)
      qed
    qed
  qed
qed

section \<open>Reading a known number of bytes\<close>

text \<open>The loop of \<open>io.ReadFull\<close> and \<open>io.CopyN\<close> over \<open>bufio.Reader.Read\<close>: buffered bytes first; with an
  empty buffer one read of the socket, straight into the target when at least a buffer's worth is
  still missing, else into the buffer.\<close>

function read_n :: "nat \<Rightarrow> 'a netio_scheme \<Rightarrow> ((string \<times> goerr option) \<times> 'a netio_scheme) option" where
  "read_n n c =
     (if n = 0 then Some (([], None), c)
      else if rbuf c \<noteq> [] then
        (let k = min n (length (rbuf c)) in
         case read_n (n - k) (c\<lparr>rbuf := drop k (rbuf c)\<rparr>) of
           None \<Rightarrow> None
         | Some ((s, err), c') \<Rightarrow> Some ((take k (rbuf c) @ s, err), c'))
      else (case net_read (max n bufio_size) c of
          None \<Rightarrow> None
        | Some (Inl e, c') \<Rightarrow> Some (([], Some e), c')
        | Some (Inr d, c') \<Rightarrow>
            (let k = min n (length d) in
             case read_n (n - k) (c'\<lparr>rbuf := drop k d\<rparr>) of
               None \<Rightarrow> None
             | Some ((s, err), c'') \<Rightarrow> Some ((take k d @ s, err), c''))))"
  by pat_completeness auto
termination
proof (relation "measure fst", goal_cases)
  case (3 n c a r c' d k)
  then have "d \<noteq> []" using net_read_data(1) [of "max n bufio_size" c d c'] by auto
  with 3 show ?case by auto
qed auto

declare read_n.simps [simp del]

definition read_ok :: "nat \<Rightarrow> 'a netio_scheme \<Rightarrow> string \<Rightarrow> goerr option \<Rightarrow> 'a netio_scheme \<Rightarrow> bool" where
  "read_ok n c s err c' \<longleftrightarrow> read_frame c c' \<and> pending c = s @ pending c'
    \<and> cost c' + length s \<le> cost c \<and> length s \<le> n \<and> (err = None \<longleftrightarrow> length s = n)
    \<and> (rdl c \<noteq> None \<longrightarrow> rdl c' \<noteq> None) \<and> err \<in> {None, Some EOF, Some TimeoutErr, Some NetErr}"

lemma read_ok_glue:
  assumes "read_ok (n - length t) cm s err c'" and "length t \<le> n"
    and "read_frame c cm" "pending c = t @ pending cm" "cost cm + length t \<le> cost c"
    and "rdl c \<noteq> None \<longrightarrow> rdl cm \<noteq> None"
  shows "read_ok n c (t @ s) err c'"
  using assms unfolding read_ok_def by (auto intro: read_frame_trans)

lemma read_n_facts:
  "read_n n c = Some ((s, err), c') \<Longrightarrow> read_ok n c s err c'"
proof (induction n c arbitrary: s err c' rule: read_n.induct)
  case (1 n c)
  consider "n = 0" | "n \<noteq> 0" "rbuf c \<noteq> []" | "n \<noteq> 0" "\<not> rbuf c \<noteq> []" by blast
  then show ?case
  proof cases
    case 1
    with \<open>read_n n c = _\<close> show ?thesis
      by (subst (asm) read_n.simps) (auto simp: pending_def read_ok_def)
  next
    case 2
    define k where "k = min n (length (rbuf c))"
    from 2 1(3) obtain s' where
      r: "read_n (n - k) (c\<lparr>rbuf := drop k (rbuf c)\<rparr>) = Some ((s', err), c')"
      and s: "s = take k (rbuf c) @ s'"
      unfolding k_def by (subst (asm) read_n.simps) (auto simp: Let_def split: option.splits)
    have k: "length (take k (rbuf c)) = k" "k \<le> n" by (simp_all add: k_def)
    have "read_ok (n - k) (c\<lparr>rbuf := drop k (rbuf c)\<rparr>) s' err c'"
      using 1(1) [OF 2 k_def r] .
    then show ?thesis unfolding s using k
      by (intro read_ok_glue [where cm = "c\<lparr>rbuf := drop k (rbuf c)\<rparr>"])
         (auto simp: pending_def cost_def)
  next
    case 3
    have mp: "0 < max n bufio_size" by (simp add: less_max_iff_disj)
    obtain r c1 where n: "net_read (max n bufio_size) c = Some (r, c1)"
      using 3 1(3) by (subst (asm) read_n.simps) (auto split: option.splits)
    show ?thesis
    proof (cases r)
      case (Inl e)
      with n 3 1(3) have s: "s = []" "err = Some e" "c1 = c'"
        by (subst (asm) read_n.simps, simp)+
      from net_read_fail [OF n [unfolded Inl] mp] net_read_errors [OF n [unfolded Inl]]
        net_read_rdl [OF n] 3 show ?thesis
        unfolding s read_ok_def by (auto simp: pending_def cost_def s)
    next
      case (Inr d)
      define k where "k = min n (length d)"
      from n 3 1(3) Inr obtain s' where
        r: "read_n (n - k) (c1\<lparr>rbuf := drop k d\<rparr>) = Some ((s', err), c')" and s: "s = take k d @ s'"
        unfolding k_def by (subst (asm) read_n.simps) (auto simp: Let_def split: option.splits)
      have k: "length (take k d) = k" "k \<le> n" by (simp_all add: k_def)
      have "read_ok (n - k) (c1\<lparr>rbuf := drop k d\<rparr>) s' err c'"
        using 1(2) [OF 3 n refl Inr k_def r] .
      then show ?thesis
        unfolding s using k 3 net_read_data [OF n [unfolded Inr] mp] net_read_rdl [OF n]
        by (intro read_ok_glue [where cm = "c1\<lparr>rbuf := drop k d\<rparr>"])
           (auto simp: pending_def cost_def)
    qed
  qed
qed

lemma read_n_deadline: "rdl c \<noteq> None \<Longrightarrow> read_n n c \<noteq> None"
proof (induction n c rule: read_n.induct)
  case (1 n c)
  consider "n = 0" | "n \<noteq> 0" "rbuf c \<noteq> []" | "n \<noteq> 0" "\<not> rbuf c \<noteq> []" by blast
  then show ?case
  proof cases
    case 1
    then show ?thesis by (subst read_n.simps) simp
  next
    case 2
    let ?k = "min n (length (rbuf c))"
    have "read_n (n - ?k) (c\<lparr>rbuf := drop ?k (rbuf c)\<rparr>) \<noteq> None"
      using 1(1) [OF 2 refl] 1(3) by simp
    then obtain s err c' where "read_n (n - ?k) (c\<lparr>rbuf := drop ?k (rbuf c)\<rparr>) = Some ((s, err), c')"
      by auto
    with 2 show ?thesis by (subst read_n.simps) (simp add: Let_def)
  next
    case 3
    obtain r c1 where n: "net_read (max n bufio_size) c = Some (r, c1)"
      using net_read_deadline [OF 1(3)] by fastforce
    show ?thesis
    proof (cases r)
      case (Inl e)
      with n 3 show ?thesis by (subst read_n.simps) simp
    next
      case (Inr d)
      let ?k = "min n (length d)"
      have "read_n (n - ?k) (c1\<lparr>rbuf := drop ?k d\<rparr>) \<noteq> None"
        using 1(2) [OF 3 n refl Inr refl] net_read_rdl [OF n 1(3)] by simp
      then obtain s err c' where "read_n (n - ?k) (c1\<lparr>rbuf := drop ?k d\<rparr>) = Some ((s, err), c')"
        by auto
      with n 3 Inr show ?thesis by (subst read_n.simps) (simp add: Let_def)
    qed
  qed
qed

text \<open>\<open>io.ReadFull\<close> and \<open>io.CopyN\<close>: an end of data inside the wanted bytes is
  \<open>io.ErrUnexpectedEOF\<close> for the first, \<open>io.EOF\<close> for the second.\<close>

definition ReadFull :: "nat \<Rightarrow> 'a netio_scheme \<Rightarrow> ((string \<times> goerr option) \<times> 'a netio_scheme) option" where
  "ReadFull n c =
     map_option (\<lambda>((s, err), c'). ((s, if err = Some EOF \<and> s \<noteq> [] then Some UnexpectedEOF else err), c'))
       (read_n n c)"

definition CopyN :: "nat \<Rightarrow> 'a netio_scheme \<Rightarrow> ((string \<times> goerr option) \<times> 'a netio_scheme) option" where
  "CopyN n c = read_n n c"

section \<open>Reads in time\<close>

text \<open>By the time \<open>m\<close>: the clock has not passed \<open>m\<close>, nor has the read deadline, and the read deadline
  of a poisoned connection has passed already. A read keeps this.\<close>

definition by_time :: "int \<Rightarrow> 'a netio_scheme \<Rightarrow> bool" where
  "by_time m c \<longleftrightarrow> now c \<le> m \<and> (\<exists>d. rdl c = Some d \<and> d \<le> m) \<and> (poisoned c \<longrightarrow> expired (rdl c) (now c))"

lemma by_time_upd [simp]:
  "by_time m (c\<lparr>inp := i\<rparr>) \<longleftrightarrow> by_time m c" "by_time m (c\<lparr>rbuf := b\<rparr>) \<longleftrightarrow> by_time m c"
  by (simp_all add: by_time_def)

lemma read_evs_time: "read_evs k es c = Some (r, c') \<Longrightarrow> by_time m c \<Longrightarrow> by_time m c'"
proof (induction k es c rule: read_evs.induct)
  case (2 k e es c)
  show ?case
  proof (cases "expired (rdl c) (now c)")
    case True
    with 2(4,5) show ?thesis by auto
  next
    case False
    then obtain d where d: "rdl c = Some d" "d \<le> m" "now c \<le> m" "now c < d" "\<not> poisoned c"
      using 2(5) by (auto simp: by_time_def expired_def)
    show ?thesis
    proof (cases e)
      case (Data s)
      with 2(1) [OF False Data] 2(4,5) False show ?thesis by (auto split: if_splits)
    next
      case (Wait n)
      let ?t = "now c + int n"
      show ?thesis
      proof (cases "d \<le> ?t")
        case True
        with Wait False 2(4) d show ?thesis by (auto simp: by_time_def expired_def)
      next
        case nd: False
        with Wait False 2(4) d have r: "read_evs k es (c\<lparr>now := ?t\<rparr>) = Some (r, c')" by simp
        from nd d have "by_time m (c\<lparr>now := ?t\<rparr>)" by (simp add: by_time_def)
        with 2(3) [OF False Wait refl d(1) nd r] show ?thesis .
      qed
    next
      case Cancel
      with 2(4) False d show ?thesis by (auto simp: by_time_def forceReadUnblock_def expired_def)
    qed (use 2(4,5) False d in \<open>auto simp: silence_def by_time_def expired_def split: if_splits\<close>)
  qed
qed (auto split: if_splits)

lemma net_read_time: "net_read k c = Some (r, c') \<Longrightarrow> by_time m c \<Longrightarrow> by_time m c'"
  unfolding net_read_def by (rule read_evs_time)

lemma ReadSlice_time: "ReadSlice c = Some ((s, err), c') \<Longrightarrow> by_time m c \<Longrightarrow> by_time m c'"
proof (induction c arbitrary: s err c' rule: ReadSlice.induct)
  case (1 c)
  from 1(2) show ?case
  proof (cases rule: ReadSlice_cases)
    case (fail e c1)
    with net_read_time [OF fail(3) 1(3)] show ?thesis by simp
  next
    case (more d c1)
    then have "\<not> bufio_size \<le> length (rbuf c)" by simp
    from 1(1) [OF more(1) this more(3) refl refl more(4)] net_read_time [OF more(3) 1(3)]
    show ?thesis by simp
  qed (use 1(3) in simp_all)
qed

lemma read_n_time: "read_n n c = Some ((s, err), c') \<Longrightarrow> by_time m c \<Longrightarrow> by_time m c'"
proof (induction n c arbitrary: s err c' rule: read_n.induct)
  case (1 n c)
  note eq = read_n.simps [of n c] and prems = 1(3,4)
  consider "n = 0" | "n \<noteq> 0" "rbuf c \<noteq> []" | "n \<noteq> 0" "\<not> rbuf c \<noteq> []" by blast
  then show ?case
  proof cases
    case 1
    with prems show ?thesis by (simp add: read_n.simps [of 0 c])
  next
    case 2
    define k where "k = min n (length (rbuf c))"
    from 2 1(3) obtain s' where "read_n (n - k) (c\<lparr>rbuf := drop k (rbuf c)\<rparr>) = Some ((s', err), c')"
      unfolding k_def by (auto simp: eq Let_def split: option.splits)
    from 1(1) [OF 2 k_def this] 1(4) show ?thesis by simp
  next
    case 3
    obtain r c1 where n: "net_read (max n bufio_size) c = Some (r, c1)"
      using 3 1(3) by (auto simp: eq split: option.splits)
    note t = net_read_time [OF n 1(4)]
    show ?thesis
    proof (cases r)
      case (Inl e)
      with n 3 1(3) t show ?thesis by (simp add: eq)
    next
      case (Inr d)
      define k where "k = min n (length d)"
      from n 3 1(3) Inr obtain s' where "read_n (n - k) (c1\<lparr>rbuf := drop k d\<rparr>) = Some ((s', err), c')"
        unfolding k_def by (auto simp: eq Let_def split: option.splits)
      from 1(2) [OF 3 n refl Inr k_def this] t show ?thesis by simp
    qed
  qed
qed

section \<open>bufio.Writer\<close>

text \<open>\<open>WriteString\<close> queues its bytes unless a write failed before; \<open>Flush\<close> hands them to the socket,
  under a write deadline of its own when the server wraps the connection in \<open>writeDeadlineConn\<close>
  (\<open>wtimeout\<close>). A failure is kept and returned by every later flush. That \<open>bufio.Writer\<close> sends a full
  buffer early is not modelled: the queue is handed over at the next flush.\<close>

definition WriteString :: "string \<Rightarrow> 'a netio_scheme \<Rightarrow> 'a netio_scheme" where
  "WriteString s c = (if werr c = None then c\<lparr>wbuf := wbuf c @ s\<rparr> else c)"

definition armWrite :: "'a netio_scheme \<Rightarrow> 'a netio_scheme" where
  "armWrite c = (if 0 < wtimeout c then c\<lparr>wdl := Some (now c + wtimeout c)\<rparr> else c)"

definition partial_write :: "nat \<Rightarrow> goerr \<Rightarrow> peer_write \<Rightarrow> 'a netio_scheme \<Rightarrow> 'a netio_scheme" where
  "partial_write n e p c =
     c\<lparr>sent := sent c @ take n (wbuf c), wbuf := drop n (wbuf c), werr := Some e, wplan := p\<rparr>"

definition full_write :: "peer_write \<Rightarrow> 'a netio_scheme \<Rightarrow> 'a netio_scheme" where
  "full_write p c = c\<lparr>sent := sent c @ wbuf c, wbuf := [], wplan := p\<rparr>"

definition net_write :: "'a netio_scheme \<Rightarrow> (goerr option \<times> 'a netio_scheme) option" where
  "net_write c =
     (if expired (wdl c) (now c) then Some (Some TimeoutErr, partial_write 0 TimeoutErr (wplan c) c)
      else case wplan c of
        Accepts \<Rightarrow> Some (None, full_write Accepts c)
      | StallsAfter n \<Rightarrow>
          if length (wbuf c) \<le> n then Some (None, full_write (StallsAfter (n - length (wbuf c))) c)
          else (case wdl c of
              None \<Rightarrow> None
            | Some d \<Rightarrow> Some (Some TimeoutErr,
                partial_write n TimeoutErr (StallsAfter 0) (c\<lparr>now := d\<rparr>)))
      | ResetsAfter n \<Rightarrow>
          if length (wbuf c) \<le> n then Some (None, full_write (ResetsAfter (n - length (wbuf c))) c)
          else Some (Some NetErr, partial_write n NetErr (ResetsAfter 0) c))"

definition Flush :: "'a netio_scheme \<Rightarrow> (goerr option \<times> 'a netio_scheme) option" where
  "Flush c =
     (case werr c of
        Some e \<Rightarrow> Some (Some e, c)
      | None \<Rightarrow> if wbuf c = [] then Some (None, c) else net_write (armWrite c))"

text \<open>In time: the clock has not passed \<open>m\<close> as long as no write failed, and after a failure at most the
  write timeout beyond. A flush keeps this.\<close>

definition late_by :: "'a netio_scheme \<Rightarrow> int" where
  "late_by c = (if werr c = None then 0 else wtimeout c)"

lemma Flush_time:
  assumes "Flush c = Some (err, c')" "now c \<le> m + late_by c" "0 < wtimeout c"
  shows "now c' \<le> m + late_by c'"
  using assms
  by (auto simp: Flush_def net_write_def armWrite_def full_write_def partial_write_def late_by_def
      expired_def split: option.splits peer_write.splits if_splits)

text \<open>A write leaves the reader and everything beyond the socket alone, and the bytes the peer has
  are always a front part of the bytes written.\<close>

definition write_frame :: "'a netio_scheme \<Rightarrow> 'a netio_scheme \<Rightarrow> bool" where
  "write_frame c c' \<longleftrightarrow> netio.more c' = netio.more c \<and> inp c' = inp c \<and> rbuf c' = rbuf c
     \<and> rdl c' = rdl c \<and> poisoned c' = poisoned c \<and> cancelled c' = cancelled c
     \<and> wtimeout c' = wtimeout c \<and> now c \<le> now c' \<and> tlsPending c' = tlsPending c"

lemma Flush_facts:
  assumes "Flush c = Some (err, c')"
  shows "write_frame c c' \<and> sent c' @ wbuf c' = sent c @ wbuf c \<and> (\<exists>p. sent c' = sent c @ p)
    \<and> werr c' = err \<and> (err = None \<longrightarrow> wbuf c' = [] \<and> werr c = None)"
proof (cases "werr c = None \<and> wbuf c \<noteq> []")
  case False
  with assms show ?thesis by (auto simp: Flush_def write_frame_def split: option.splits if_splits)
next
  case True
  with assms have "net_write (armWrite c) = Some (err, c')" by (simp add: Flush_def)
  with True show ?thesis
    by (auto simp: net_write_def armWrite_def write_frame_def full_write_def partial_write_def
        expired_def split: peer_write.splits if_splits option.splits)
qed

lemma Flush_deadline: "0 < wtimeout c \<or> wdl c \<noteq> None \<Longrightarrow> Flush c \<noteq> None"
  by (auto simp: Flush_def net_write_def armWrite_def split: option.splits peer_write.splits)

lemma Flush_Accepts:
  assumes "werr c = None" "wplan c = Accepts" "0 < wtimeout c \<or> \<not> expired (wdl c) (now c)"
  shows "\<exists>c'. Flush c = Some (None, c') \<and> sent c' = sent c @ wbuf c \<and> wbuf c' = []
    \<and> werr c' = None \<and> wplan c' = Accepts \<and> now c' = now c \<and> write_frame c c'"
  using assms
  by (auto simp: Flush_def net_write_def armWrite_def full_write_def write_frame_def expired_def)

lemma WriteString_frame [simp]:
  "netio.more (WriteString s c) = netio.more c" "inp (WriteString s c) = inp c"
  "rbuf (WriteString s c) = rbuf c" "rdl (WriteString s c) = rdl c"
  "wdl (WriteString s c) = wdl c" "now (WriteString s c) = now c"
  "sent (WriteString s c) = sent c" "werr (WriteString s c) = werr c"
  "wplan (WriteString s c) = wplan c" "wtimeout (WriteString s c) = wtimeout c"
  "poisoned (WriteString s c) = poisoned c" "cancelled (WriteString s c) = cancelled c"
  "tlsPending (WriteString s c) = tlsPending c"
  "werr c = None \<Longrightarrow> wbuf (WriteString s c) = wbuf c @ s"
  by (simp_all add: WriteString_def)

end
