(* ===== verification/Parser.thy ===== *)
theory Parser
  imports NetIO
begin

text \<open>
  \<open>managesieveserver/parser.go\<close>: the tokeniser of command lines, quoted strings, literal markers,
  and the bounded line reader. The reader is compared with a specification on the plain sequence of
  bytes, which knows nothing of buffers, chunks or reads.
\<close>

section \<open>Tokens\<close>

text \<open>The scan for the closing quote, from the byte behind the opening one; the result counts from
  there.\<close>

fun scan_quote :: "string \<Rightarrow> bool \<Rightarrow> nat option" where
  "scan_quote [] escaped = None"
| "scan_quote (c # s) escaped =
     (if escaped then map_option Suc (scan_quote s False)
      else if c = BSLASH then map_option Suc (scan_quote s True)
      else if c = DQUOTE then Some 0
      else map_option Suc (scan_quote s False))"

definition unclosed_quote :: string where
  "unclosed_quote = ''unclosed quote in command arguments''"

lemma TrimLeft_no_space:
  assumes "TrimLeft s \<noteq> []" shows "hd (TrimLeft s) \<noteq> SP"
proof -
  have "\<not> IsSpace (fst (decode_rune (TrimLeft s)))"
    using assms
  proof (induction s rule: TrimLeft.induct)
    case (1 s)
    show ?case
    proof (cases "s \<noteq> [] \<and> IsSpace (fst (decode_rune s))")
      case True
      then have "TrimLeft s = TrimLeft (drop (snd (decode_rune s)) s)" by (subst TrimLeft.simps) simp
      with 1(1) [OF True] 1(2) show ?thesis by simp
    next
      case False
      then have "TrimLeft s = s" by (subst TrimLeft.simps) auto
      with False 1(2) show ?thesis by simp
    qed
  qed
  with assms show ?thesis
    by (cases "TrimLeft s") (auto simp: IsSpace_def)
qed

lemma TrimSpace_no_space:
  assumes "TrimSpace s \<noteq> []" shows "hd (TrimSpace s) \<noteq> SP"
proof -
  obtain q where q: "TrimLeft s = TrimSpace s @ q"
    using TrimRight_prefix [of "TrimLeft s"] by (auto simp: TrimSpace_def)
  with assms have "hd (TrimLeft s) = hd (TrimSpace s)" by (metis hd_append2)
  with TrimLeft_no_space [of s] q assms show ?thesis by auto
qed

text \<open>\<open>parseTokens\<close>; the loop trims, takes one argument and goes on with the rest.\<close>

definition token :: "string \<Rightarrow> (string \<times> string) option" where
  "token rem =
     (if hd rem = DQUOTE then
        (case scan_quote (tl rem) False of
           None \<Rightarrow> None
         | Some j \<Rightarrow> let i = Suc j in Some (take (i + 1) rem, drop (i + 1) rem))
      else
        (case index_byte SP rem of
           None \<Rightarrow> Some (rem, [])
         | Some e \<Rightarrow> Some (take e rem, drop e rem)))"

function parseTokens :: "string \<Rightarrow> string + string list" where
  "parseTokens rem =
     (if rem = [] then Inr []
      else let rem1 = TrimSpace rem in
        if rem1 = [] then Inr []
        else (case token rem1 of
            None \<Rightarrow> Inl unclosed_quote
          | Some (arg, rem2) \<Rightarrow>
              (case parseTokens rem2 of Inl e \<Rightarrow> Inl e | Inr args \<Rightarrow> Inr (arg # args))))"
  by pat_completeness auto
termination
proof (relation "measure length", goal_cases)
  case (2 rem rem1 p arg rem2)
  have "length rem2 < length rem1"
  proof (cases "hd rem1 = DQUOTE")
    case True
    with 2 show ?thesis by (auto simp: token_def Let_def split: option.splits)
  next
    case False
    have "hd rem1 \<noteq> SP" using TrimSpace_no_space 2 by blast
    then have "index_byte SP rem1 \<noteq> Some 0" using 2(3) by (cases rem1) auto
    with False 2 show ?thesis
      by (auto simp: token_def split: option.splits)
  qed
  then show ?case using length_TrimSpace [of rem] 2 by simp
qed simp

declare parseTokens.simps [simp del]

definition parseLine :: "(nat \<Rightarrow> nat) \<Rightarrow> string \<Rightarrow> string \<times> (string + string list)" where
  "parseLine up line =
     (let line1 = TrimSpace line in
      if line1 = [] then ([], Inr [])
      else (case SplitN2 SP line1 of
          (p0, None) \<Rightarrow> (ToUpper up p0, Inr [])
        | (p0, Some p1) \<Rightarrow> (ToUpper up p0, parseTokens (TrimSpace p1))))"

fun unescape :: "bool \<Rightarrow> string \<Rightarrow> string" where
  "unescape escaped [] = []"
| "unescape escaped (c # s) =
     (if escaped then c # unescape False s
      else if c = BSLASH then unescape True s
      else c # unescape False s)"

definition unquoteString :: "string \<Rightarrow> string" where
  "unquoteString str =
     (if length str < 2 \<or> hd str \<noteq> DQUOTE \<or> last str \<noteq> DQUOTE then str
      else unescape False (butlast (tl str)))"

section \<open>Numbers and literal markers\<close>

fun parse_digits :: "int \<Rightarrow> nat list \<Rightarrow> string + int" where
  "parse_digits n [] = Inr n"
| "parse_digits n (ch # rest) =
     (if ch < 48 \<or> 57 < ch then Inl ''not a number''
      else let d = int ch - 48 in
        if (max_int64 - d) div 10 < n then Inl ''number too large''
        else parse_digits (wrap64 (wrap64 (n * 10) + d)) rest)"

definition parseInt64 :: "string \<Rightarrow> string + int" where
  "parseInt64 s = (if s = [] then Inl ''not a number'' else parse_digits 0 (runes s))"

text \<open>\<open>literalLength\<close>: \<^const>\<open>None\<close> where the code's \<open>ok\<close> is false, else the non-synchronizing flag and
  the length or the error.\<close>

definition literalLength :: "string \<Rightarrow> (bool \<times> (string + int)) option" where
  "literalLength arg =
     (if \<not> HasPrefix arg ''{'' \<or> \<not> HasSuffix arg ''}'' then None
      else
        let nonSync = HasSuffix arg ''+}'';
            l1 = TrimPrefix arg ''{'';
            l2 = TrimSuffix l1 ''}'';
            l3 = TrimSuffix l2 ''+''
        in Some (nonSync, parseInt64 l3))"

section \<open>Facts on tokens\<close>

lemma scan_quote_esc:
  "scan_quote (concat (map esc s) @ DQUOTE # t) False = Some (length (concat (map esc s)))"
  by (induction s) (auto simp: esc_def)

lemma unescape_esc: "unescape False (concat (map esc s)) = s"
  by (induction s) (auto simp: esc_def)

lemma unquote_Quote: "unquoteString (Quote s) = s"
  by (simp add: unquoteString_def Quote_esc butlast_append unescape_esc)

definition closing_scan :: "string \<Rightarrow> nat option" where
  "closing_scan s = map_option Suc (scan_quote (tl s) False)"

interpretation srv: quote_scanner unquoteString closing_scan
proof unfold_locales
  show "unquoteString (Quote s) = s" for s by (rule unquote_Quote)
  show "unquoteString s = s" if "s = [] \<or> hd s \<noteq> DQUOTE" for s
    using that by (auto simp: unquoteString_def)
  show "closing_scan (Quote s @ t) = Some (length (Quote s) - 1)" for s t
    by (simp add: closing_scan_def Quote_esc scan_quote_esc)
qed

lemma token_Quote: "token (Quote s @ t) = Some (Quote s, t)"
proof -
  have h: "hd (Quote s @ t) = DQUOTE" by (simp add: Quote_esc)
  note c = srv.closing_Quote [of s t]
  then obtain j where j: "scan_quote (tl (Quote s @ t)) False = Some j" "Suc j = length (Quote s) - 1"
    by (auto simp: closing_scan_def)
  with srv.split_quoted [OF c] h show ?thesis by (simp add: token_def Let_def)
qed

lemma literalLength_Quote: "literalLength (Quote s) = None"
  by (simp add: literalLength_def Quote_esc HasPrefix_def)

text \<open>Arguments written one after the other, each as a quoted string, are read back one by one.\<close>

fun quote_args :: "string list \<Rightarrow> string" where
  "quote_args [] = []"
| "quote_args [a] = Quote a"
| "quote_args (a # b # as) = Quote a @ SP # quote_args (b # as)"

lemma quote_args_nonempty [simp]: "as \<noteq> [] \<Longrightarrow> quote_args as \<noteq> []"
  by (cases as rule: quote_args.cases) simp_all

lemma quote_args_edged: "edged (quote_args as)"
proof (induction as rule: quote_args.induct)
  case (3 a b as)
  then show ?case by (cases "quote_args (b # as)") (auto simp: edged_def Quote_esc)
qed (simp_all add: edged_def Quote_esc)

lemma TrimSpace_space_edged: "edged s \<Longrightarrow> TrimSpace (SP # s) = s"
  using TrimSpace_edged [of s] by (simp add: TrimSpace_def)

lemma parseTokens_edged:
  assumes "edged rem" "rem \<noteq> []"
  shows "parseTokens rem = (case token rem of None \<Rightarrow> Inl unclosed_quote
     | Some (arg, rem2) \<Rightarrow>
         (case parseTokens rem2 of Inl e \<Rightarrow> Inl e | Inr args \<Rightarrow> Inr (arg # args)))"
  using assms by (subst parseTokens.simps) (simp add: TrimSpace_edged Let_def)

lemma parseTokens_Nil [simp]: "parseTokens [] = Inr []"
  by (simp add: parseTokens.simps)

lemma parseTokens_trim: "TrimSpace rem = rem1 \<Longrightarrow> edged rem1 \<Longrightarrow> parseTokens rem = parseTokens rem1"
  by (subst parseTokens.simps, subst (2) parseTokens.simps)
     (auto simp: TrimSpace_edged Let_def)

lemma parseTokens_quote_args: "parseTokens (quote_args as) = Inr (map Quote as)"
proof (induction as rule: quote_args.induct)
  case (2 a)
  have "token (Quote a) = Some (Quote a, [])" using token_Quote [of a "[]"] by simp
  then show ?case by (simp add: parseTokens_edged)
next
  case (3 a b as)
  have "parseTokens (SP # quote_args (b # as)) = parseTokens (quote_args (b # as))"
    by (rule parseTokens_trim [OF TrimSpace_space_edged [OF quote_args_edged] quote_args_edged])
  moreover have "edged (quote_args (a # b # as))" by (rule quote_args_edged)
  ultimately show ?case using 3 by (simp add: parseTokens_edged token_Quote)
qed simp

section \<open>Facts on numbers\<close>

definition rune_val :: "int \<Rightarrow> nat list \<Rightarrow> int" where
  "rune_val n rs = foldl (\<lambda>n r. n * 10 + (int r - 48)) n rs"

lemma rune_val_simps [simp]:
  "rune_val n [] = n" "rune_val n (r # rs) = rune_val (n * 10 + (int r - 48)) rs"
  by (simp_all add: rune_val_def)

lemma rune_val_mono: "list_all (\<lambda>r. 48 \<le> r \<and> r \<le> 57) rs \<Longrightarrow> 0 \<le> m \<Longrightarrow> m \<le> rune_val m rs"
proof (induction rs arbitrary: m)
  case (Cons r rs)
  then have "m * 10 + (int r - 48) \<le> rune_val (m * 10 + (int r - 48)) rs" by simp
  moreover have "m \<le> m * 10 + (int r - 48)" using Cons by simp
  ultimately show ?case by simp
qed simp

lemma parse_digits_Inr:
  assumes "0 \<le> n" "n \<le> max_int64"
  shows "parse_digits n rs = Inr m \<longleftrightarrow>
    list_all (\<lambda>r. 48 \<le> r \<and> r \<le> 57) rs \<and> rune_val n rs = m \<and> m \<le> max_int64"
  using assms
proof (induction rs arbitrary: n)
  case Nil
  then show ?case by auto
next
  case (Cons r rs)
  show ?case
  proof (cases "r < 48 \<or> 57 < r")
    case True
    then show ?thesis by auto
  next
    case digit: False
    define d where "d = int r - 48"
    have d: "0 \<le> d" "d \<le> 9" using digit by (auto simp: d_def)
    show ?thesis
    proof (cases "(max_int64 - d) div 10 < n")
      case True
      then have "max_int64 < n * 10 + d" using d by (simp add: max_int64_def)
      with rune_val_mono [of rs "n * 10 + d"] d Cons.prems digit True show ?thesis
        by (auto simp: d_def Let_def)
    next
      case False
      then have b: "n * 10 + d \<le> max_int64" using d by (simp add: max_int64_def)
      have w: "wrap64 (n * 10) = n * 10" "wrap64 (n * 10 + d) = n * 10 + d"
        using b d Cons.prems by (auto intro!: wrap64_id)
      have "0 \<le> n * 10 + d" using d Cons.prems by simp
      from Cons.IH [OF this b] False digit w show ?thesis by (simp add: d_def Let_def)
    qed
  qed
qed

lemma digit_runes_ascii: "list_all (\<lambda>r. 48 \<le> r \<and> r \<le> 57) (runes s) \<Longrightarrow> ascii s"
proof (induction s rule: decode_all.induct)
  case (1 s)
  show ?case
  proof (cases "s = []")
    case False
    obtain r w where d: "decode_rune s = (r, w)" by (cases "decode_rune s")
    from 1(2) False d have r: "48 \<le> r" "r \<le> 57"
      and rest: "list_all (\<lambda>r. 48 \<le> r \<and> r \<le> 57) (runes (drop w s))"
      by (simp_all add: runes_def decode_all_step)
    from r have "(r, w) \<noteq> (RuneError, 1)" by (auto simp: RuneError_def)
    from decode_rune_encode [OF False d this] r have "take w s = [char_of r]"
      by (simp add: encode_rune_def)
    then have "ascii (take w s)" using r by (simp add: of_char_of)
    moreover have "ascii (drop w s)" using 1(1) [OF False] rest d by simp
    ultimately show ?thesis using append_take_drop_id [of w s] by (metis ascii_simps(3))
  qed simp
qed

lemma rune_val_dec_val:
  "list_all is_digit s \<Longrightarrow> rune_val 0 (map of_char s) = int (dec_val s)"
  by (induction s rule: rev_induct) (simp_all add: rune_val_def is_digit_def)

lemma parseInt64_Inr:
  "parseInt64 s = Inr m \<longleftrightarrow> s \<noteq> [] \<and> list_all is_digit s \<and> m = int (dec_val s) \<and> m \<le> max_int64"
proof -
  have z: "0 \<le> (0::int)" "0 \<le> max_int64" by (simp_all add: max_int64_def)
  have d: "list_all is_digit s \<longleftrightarrow> list_all (\<lambda>r. 48 \<le> r \<and> r \<le> 57) (runes s)"
    using digit_runes_ascii [of s] runes_ascii [of s]
    by (auto simp: list_all_iff is_digit_def ascii_def) force+
  have "list_all is_digit s \<Longrightarrow> runes s = map of_char s"
    by (rule runes_ascii) (auto simp: ascii_def list_all_iff is_digit_def)
  with d show ?thesis
    by (auto simp: parseInt64_def parse_digits_Inr [OF z] rune_val_dec_val)
qed

text \<open>The markers a client writes, read back.\<close>

definition literal_marker :: "int \<Rightarrow> bool \<Rightarrow> string" where
  "literal_marker n nonSync = ''{'' @ dec_int n @ (if nonSync then ''+'' else []) @ ''}''"

lemma dec_int_last: "0 \<le> n \<Longrightarrow> last (dec_int n) \<noteq> CHR ''+''"
proof -
  assume "0 \<le> n"
  have "last (dec_nat (nat n)) \<in> set (dec_nat (nat n))" by simp
  with dec_nat_digits [of "nat n"] have "is_digit (last (dec_nat (nat n)))"
    by (simp add: list_all_iff)
  then have "last (dec_nat (nat n)) \<noteq> CHR ''+''" by (auto simp: is_digit_def)
  with \<open>0 \<le> n\<close> show ?thesis by (simp add: dec_int_def)
qed

lemma HasSuffix_one: "HasSuffix s [d] \<longleftrightarrow> s \<noteq> [] \<and> last s = d"
  by (cases s rule: rev_cases) (simp_all add: HasSuffix_def)

lemma literalLength_marker:
  assumes "0 \<le> n" "n \<le> max_int64"
  shows "literalLength (literal_marker n ns) = Some (ns, Inr n)"
proof -
  have p: "parseInt64 (dec_int n) = Inr n"
    using assms dec_nat_digits [of "nat n"] by (simp add: parseInt64_Inr dec_int_def)
  have nz: "dec_int n \<noteq> []" by (simp add: dec_int_def)
  let ?m = "literal_marker n ns"
  have 1: "HasPrefix ?m ''{''" "HasSuffix ?m ''}''" 
    by (simp_all add: literal_marker_def HasPrefix_def HasSuffix_one)
  have 2: "TrimSuffix (TrimPrefix ?m ''{'') ''}'' = dec_int n @ (if ns then ''+'' else [])"
    using TrimSuffix_append [of "dec_int n @ (if ns then ''+'' else [])" "''}''"]
    by (simp add: literal_marker_def TrimPrefix_def HasPrefix_def)
  have 3: "TrimSuffix (dec_int n @ (if ns then ''+'' else [])) ''+'' = dec_int n"
    using dec_int_last [OF assms(1)] nz
    by (simp add: TrimSuffix_def HasSuffix_one)
  have 4: "HasSuffix ?m ''+}'' \<longleftrightarrow> ns"
  proof (cases ns)
    case True
    then show ?thesis using HasSuffix_append [of "''{'' @ dec_int n" "''+}''"]
      by (simp add: literal_marker_def)
  next
    case False
    obtain t c where "dec_int n = t @ [c]" using nz by (cases "dec_int n" rule: rev_cases) auto
    with dec_int_last [OF assms(1)] False show ?thesis
      by (simp add: literal_marker_def HasSuffix_def Suc_diff_le)
  qed
  show ?thesis using 1 2 3 4 p by (simp add: literalLength_def Let_def)
qed

section \<open>The bounded line reader\<close>

lemma ReadSlice_full_cost:
  "ReadSlice c = Some ((s, Some ErrBufferFull), c') \<Longrightarrow> cost c' < cost c"
  using ReadSlice_facts [of c s "Some ErrBufferFull" c'] bufio_size_pos
  by (auto simp: slice_ok_def simp del: bufio_size_pos)

lemma crlf_end:
  "\<not> (length (u @ [LF]) < 2 \<or> (u @ [LF]) ! (length (u @ [LF]) - 2) \<noteq> CR)
     \<longleftrightarrow> (\<exists>v. u = v @ [CR])"
  by (cases u rule: rev_cases) (auto simp: nth_append)

text \<open>The inner loop that reads an oversized line to its end.\<close>

function drain :: "'a netio_scheme \<Rightarrow> 'a netio_scheme option" where
  "drain c =
     (case ReadSlice c of
        None \<Rightarrow> None
      | Some ((chunk, err), c') \<Rightarrow> if err = Some ErrBufferFull then drain c' else Some c')"
  by pat_completeness auto
termination
  by (relation "measure cost") (auto dest: ReadSlice_full_cost)

declare drain.simps [simp del]

text \<open>\<open>readBoundedLine\<close>; \<open>line\<close> is what the loop has gathered.\<close>

function read_line_loop :: "int \<Rightarrow> string \<Rightarrow> 'a netio_scheme
    \<Rightarrow> ((goerr + string) \<times> 'a netio_scheme) option" where
  "read_line_loop maxBytes line0 c =
     (case ReadSlice c of
        None \<Rightarrow> None
      | Some ((chunk, err), c') \<Rightarrow>
          let line = line0 @ chunk in
          if maxBytes < int (length line) then
            (if err = Some ErrBufferFull then
               map_option (\<lambda>c''. (Inl ErrLineTooLong, c'')) (drain c')
             else Some (Inl ErrLineTooLong, c'))
          else (case err of
              None \<Rightarrow>
                if length line < 2 \<or> line ! (length line - 2) \<noteq> CR
                then Some (Inl ErrMissingCRLF, c') else Some (Inr line, c')
            | Some e \<Rightarrow>
                if e = ErrBufferFull then read_line_loop maxBytes line c'
                else if e = EOF then
                  Some (Inl (if line \<noteq> [] then ErrMissingCRLF else EOF), c')
                else Some (Inl e, c')))"
  by pat_completeness auto
termination
  by (relation "measure (\<lambda>(m, l, c). cost c)") (auto dest: ReadSlice_full_cost)

declare read_line_loop.simps [simp del]

definition readBoundedLine :: "int \<Rightarrow> 'a netio_scheme \<Rightarrow> ((goerr + string) \<times> 'a netio_scheme) option" where
  "readBoundedLine maxBytes c = read_line_loop maxBytes [] c"

text \<open>The specification: the bytes up to the first LF are the line.\<close>

definition spec_line :: "int \<Rightarrow> string \<Rightarrow> (goerr + string) \<times> string" where
  "spec_line maxBytes s =
     (case index_byte LF s of
        Some i \<Rightarrow>
          (if maxBytes < int (Suc i) then Inl ErrLineTooLong
           else if i = 0 \<or> s ! (i - 1) \<noteq> CR then Inl ErrMissingCRLF
           else Inr (take (Suc i) s), drop (Suc i) s)
      | None \<Rightarrow>
          (if maxBytes < int (length s) then Inl ErrLineTooLong
           else if s \<noteq> [] then Inl ErrMissingCRLF else Inl EOF, []))"

subsection \<open>Facts for any script\<close>

definition line_errors :: "goerr set" where
  "line_errors = {ErrLineTooLong, ErrMissingCRLF, EOF, TimeoutErr, NetErr}"

definition line_ok :: "int \<Rightarrow> string \<Rightarrow> string \<Rightarrow> bool" where
  "line_ok maxBytes before l \<longleftrightarrow> int (length l) \<le> maxBytes
     \<and> (\<exists>t. l = t @ CRLF \<and> (LF \<notin> set before \<longrightarrow> LF \<notin> set t))"

lemma drain_facts:
  "drain c = Some c' \<Longrightarrow>
     read_frame c c' \<and> cost c' \<le> cost c \<and> (\<exists>p. pending c = p @ pending c') \<and> (rdl c \<noteq> None \<longrightarrow> rdl c' \<noteq> None)"
proof (induction c rule: drain.induct)
  case (1 c)
  obtain chunk err c1 where r: "ReadSlice c = Some ((chunk, err), c1)"
    using 1(2) by (subst (asm) drain.simps) (auto split: option.splits)
  note f = ReadSlice_facts [OF r] ReadSlice_rdl [OF r]
  show ?case
  proof (cases "err = Some ErrBufferFull")
    case True
    with 1(2) r have "drain c1 = Some c'" by (subst (asm) drain.simps) simp
    from 1(1) [OF r refl refl True this] f show ?thesis
      by (auto intro: read_frame_trans)
  next
    case False
    with 1(2) r have "c' = c1" by (subst (asm) drain.simps) simp
    with f show ?thesis by auto
  qed
qed

lemma drain_time: "drain c = Some c' \<Longrightarrow> by_time m c \<Longrightarrow> by_time m c'"
proof (induction c rule: drain.induct)
  case (1 c)
  note eq = drain.simps [of c]
  obtain s err c1 where r: "ReadSlice c = Some ((s, err), c1)"
    using 1(2) by (auto simp: eq split: option.splits)
  note t = ReadSlice_time [OF r 1(3)]
  show ?case
  proof (cases "err = Some ErrBufferFull")
    case True
    with 1(1) [OF r refl refl True] 1(2) r t show ?thesis by (simp add: eq)
  next
    case False
    with 1(2) r t show ?thesis by (simp add: eq)
  qed
qed

lemma read_line_time: "read_line_loop m line0 c = Some (r, c') \<Longrightarrow> by_time t c \<Longrightarrow> by_time t c'"
proof (induction m line0 c rule: read_line_loop.induct)
  case (1 m line0 c)
  note eq = read_line_loop.simps [of m line0 c]
  obtain s err c1 where r: "ReadSlice c = Some ((s, err), c1)"
    using 1(2) by (auto simp: eq split: option.splits)
  note b = ReadSlice_time [OF r 1(3)]
  show ?case
  proof (cases "m < int (length (line0 @ s)) \<or> err \<noteq> Some ErrBufferFull")
    case True
    with 1(2) r b drain_time [OF _ b] show ?thesis
      by (auto simp: eq Let_def split: if_splits option.splits)
  next
    case False
    with 1(1) [OF r refl refl refl] 1(2) r b show ?thesis by (auto simp: eq Let_def)
  qed
qed

lemma read_line_facts:
  "read_line_loop m line0 c = Some (r, c') \<Longrightarrow>
     read_frame c c' \<and> cost c' \<le> cost c \<and> (rdl c \<noteq> None \<longrightarrow> rdl c' \<noteq> None)
     \<and> (\<exists>p. pending c = p @ pending c' \<and>
          (case r of Inl e \<Rightarrow> e \<in> line_errors
                   | Inr l \<Rightarrow> l = line0 @ p \<and> line_ok m line0 l \<and> cost c' + length p \<le> cost c))"
proof (induction m line0 c arbitrary: r rule: read_line_loop.induct)
  case (1 m line0 c)
  obtain chunk err c1 where s: "ReadSlice c = Some ((chunk, err), c1)"
    using 1(2) by (subst (asm) read_line_loop.simps) (auto split: option.splits)
  note f = ReadSlice_facts [OF s] ReadSlice_rdl [OF s]
  note unfold = read_line_loop.simps [of m line0 c]
  let ?line = "line0 @ chunk"
  show ?case
  proof (cases "m < int (length ?line)")
    case True
    show ?thesis
    proof (cases "err = Some ErrBufferFull")
      case full: True
      with True s 1(2) have "drain c1 = Some c'" "r = Inl ErrLineTooLong"
        by (auto simp: unfold Let_def)
      with drain_facts [of c1 c'] f show ?thesis
        by (auto simp: line_errors_def intro: read_frame_trans)
    next
      case False
      with True s 1(2) have "c' = c1" "r = Inl ErrLineTooLong"
        by (auto simp: unfold Let_def)
      with f show ?thesis by (auto simp: line_errors_def)
    qed
  next
    case within: False
    show ?thesis
    proof (cases err)
      case None
      with f obtain t where t: "chunk = t @ [LF]" "LF \<notin> set t" by (auto simp: slice_ok_def)
      show ?thesis
      proof (cases "length ?line < 2 \<or> ?line ! (length ?line - 2) \<noteq> CR")
        case True
        with within s 1(2) None have "c' = c1" "r = Inl ErrMissingCRLF"
          by (auto simp: unfold Let_def)
        with f show ?thesis by (auto simp: line_errors_def)
      next
        case False
        with within s 1(2) None have r: "c' = c1" "r = Inr ?line"
          by (auto simp: unfold Let_def)
        have l: "?line = (line0 @ t) @ [LF]" using t by simp
        from False obtain v where v: "line0 @ t = v @ [CR]" unfolding l crlf_end by blast
        then have "set v \<subseteq> set line0 \<union> set t" by (metis set_append le_supE order_refl)
        with t v l within have "line_ok m line0 ?line" by (auto simp: line_ok_def)
        with f r show ?thesis by auto
      qed
    next
      case (Some e)
      show ?thesis
      proof (cases "e = ErrBufferFull")
        case True
        with within s 1(2) Some have rec: "read_line_loop m ?line c1 = Some (r, c')"
          by (subst (asm) read_line_loop.simps) (auto simp: Let_def)
        have "LF \<notin> set chunk" using f Some by (auto simp: slice_ok_def)
        with 1(1) [OF s refl refl refl within Some True rec] f show ?thesis
          by (fastforce simp: line_ok_def intro: read_frame_trans split: sum.splits)
      next
        case False
        with within s 1(2) Some have "c' = c1"
          "r = Inl (if e = EOF \<and> ?line \<noteq> [] then ErrMissingCRLF else e)"
          by (auto simp: unfold Let_def split: if_splits)
        with f Some False show ?thesis by (auto simp: line_errors_def slice_ok_def)
      qed
    qed
  qed
qed

subsection \<open>Equality with the specification on a peer that only sends\<close>

definition after_LF :: "string \<Rightarrow> string" where
  "after_LF s = (case index_byte LF s of Some i \<Rightarrow> drop (Suc i) s | None \<Rightarrow> [])"

lemma snd_spec_line: "snd (spec_line m s) = after_LF s"
  by (auto simp: spec_line_def after_LF_def split: option.splits)

lemma after_LF_skip: "LF \<notin> set s \<Longrightarrow> after_LF (s @ t) = after_LF t"
  by (simp add: after_LF_def index_byte_append index_byte_None [THEN iffD2] split: option.splits)

lemma after_LF_here: "LF \<notin> set t \<Longrightarrow> after_LF (t @ LF # s) = s"
  by (simp add: after_LF_def)

lemma after_LF_none: "LF \<notin> set s \<Longrightarrow> after_LF s = []"
  by (simp add: after_LF_def index_byte_None [THEN iffD2])

text \<open>Only the script and the buffer of the reader change.\<close>

definition moved :: "'a netio_scheme \<Rightarrow> 'a netio_scheme \<Rightarrow> bool" where
  "moved c c' \<longleftrightarrow> c' = c\<lparr>inp := inp c', rbuf := rbuf c'\<rparr>"

lemma moved_upd: "moved c (c\<lparr>inp := i, rbuf := b\<rparr>)"
  by (simp add: moved_def)

lemma moved_trans: "moved a b \<Longrightarrow> moved b c \<Longrightarrow> moved a c"
  by (cases a, cases b, cases c) (simp add: moved_def)

text \<open>One slice under a quiet peer: what it is and where it leaves the bytes.\<close>

lemma quiet_slice:
  assumes "quiet c"
  obtains (line) t c1 where "ReadSlice c = Some ((t @ [LF], None), c1)" "LF \<notin> set t"
      "pending c = t @ LF # pending c1" "quiet c1" "moved c c1"
  | (full) s c1 where "ReadSlice c = Some ((s, Some ErrBufferFull), c1)" "LF \<notin> set s"
      "pending c = s @ pending c1" "quiet c1" "moved c c1"
  | (eof) s c1 where "ReadSlice c = Some ((s, Some EOF), c1)" "LF \<notin> set s"
      "pending c = s" "pending c1 = []" "quiet c1" "moved c c1"
proof -
  obtain s err i b where r: "ReadSlice c = Some ((s, err), c\<lparr>inp := i, rbuf := b\<rparr>)"
    and i: "list_all is_Data i" and e: "err \<in> {None, Some ErrBufferFull, Some EOF}"
    and e0: "err = Some EOF \<longrightarrow> i = [] \<and> b = []"
    using ReadSlice_quiet [OF assms] by blast
  define c1 where "c1 = c\<lparr>inp := i, rbuf := b\<rparr>"
  have q: "quiet c1" and m: "moved c c1"
    using i assms by (simp_all add: quiet_def c1_def moved_upd)
  note r' = r [folded c1_def]
  note f = ReadSlice_facts [OF r']
  from e consider "err = None" | "err = Some ErrBufferFull" | "err = Some EOF" by blast
  then show thesis
  proof cases
    case 1
    with f obtain t where "s = t @ [LF]" "LF \<notin> set t" by (auto simp: slice_ok_def)
    with 1 r' f q m show thesis by (intro line) auto
  next
    case 2
    with r' f q m show thesis by (intro full) (auto simp: slice_ok_def)
  next
    case 3
    with e0 have "pending c1 = []" by (simp add: pending_def c1_def)
    with 3 r' f q m show thesis by (intro eof) (auto simp: slice_ok_def)
  qed
qed

lemma drain_quiet:
  "quiet c \<Longrightarrow> \<exists>c'. drain c = Some c' \<and> moved c c' \<and> pending c' = after_LF (pending c) \<and> quiet c'"
proof (induction c rule: drain.induct)
  case (1 c)
  from 1(2) show ?case
  proof (cases rule: quiet_slice)
    case (line t c1)
    then show ?thesis by (subst drain.simps) (auto simp: after_LF_here)
  next
    case (full s c1)
    from 1(1) [OF full(1) refl refl refl full(4)] full show ?thesis
      by (subst drain.simps) (auto simp: after_LF_skip intro: moved_trans)
  next
    case (eof s c1)
    then show ?thesis by (subst drain.simps) (auto simp: after_LF_none)
  qed
qed

lemma spec_line_here:
  assumes "LF \<notin> set u"
  shows "fst (spec_line m (u @ LF # p)) =
    (if m < int (length (u @ [LF])) then Inl ErrLineTooLong
     else if length (u @ [LF]) < 2 \<or> (u @ [LF]) ! (length (u @ [LF]) - 2) \<noteq> CR then Inl ErrMissingCRLF
     else Inr (u @ [LF]))"
proof -
  have i: "index_byte LF (u @ LF # p) = Some (length u)" using assms by (rule index_byte_here)
  have n: "(length u = 0 \<or> (u @ LF # p) ! (length u - 1) \<noteq> CR)
    \<longleftrightarrow> (length (u @ [LF]) < 2 \<or> (u @ [LF]) ! (length (u @ [LF]) - 2) \<noteq> CR)"
    by (cases u rule: rev_cases) (auto simp: nth_append)
  show ?thesis unfolding spec_line_def i option.case n by simp
qed

lemma spec_line_long:
  assumes "LF \<notin> set u" "m < int (length u)"
  shows "fst (spec_line m (u @ p)) = Inl ErrLineTooLong"
  using assms by (auto simp: spec_line_def index_byte_append index_byte_None [THEN iffD2]
      split: option.splits)

lemma read_line_quiet:
  "quiet c \<Longrightarrow> LF \<notin> set line0 \<Longrightarrow>
   \<exists>c'. read_line_loop m line0 c = Some (fst (spec_line m (line0 @ pending c)), c')
     \<and> moved c c' \<and> pending c' = snd (spec_line m (line0 @ pending c)) \<and> quiet c'"
proof (induction m line0 c rule: read_line_loop.induct)
  case (1 m line0 c)
  from 1(2) show ?case
  proof (cases rule: quiet_slice)
    case (line t c1)
    have "LF \<notin> set (line0 @ t)" using line 1(3) by simp
    from spec_line_here [OF this, of m "pending c1"] after_LF_here [OF this, of "pending c1"] line
    show ?thesis by (subst read_line_loop.simps) (auto simp: snd_spec_line Let_def)
  next
    case (full s c1)
    have u: "LF \<notin> set (line0 @ s)" using full 1(3) by simp
    show ?thesis
    proof (cases "m < int (length (line0 @ s))")
      case True
      from drain_quiet [OF full(4)] obtain c' where
        "drain c1 = Some c'" "moved c c'" "pending c' = after_LF (pending c1)" "quiet c'"
        using full(5) by (blast intro: moved_trans)
      with spec_line_long [OF u True, of "pending c1"] after_LF_skip [OF u, of "pending c1"] full True
      show ?thesis by (subst read_line_loop.simps) (auto simp: snd_spec_line Let_def)
    next
      case False
      from 1(1) [OF full(1) refl refl refl False refl refl full(4) u] obtain c' where
        "read_line_loop m (line0 @ s) c1 = Some (fst (spec_line m ((line0 @ s) @ pending c1)), c')"
        "moved c c'" "pending c' = snd (spec_line m ((line0 @ s) @ pending c1))" "quiet c'"
        using full(5) by (blast intro: moved_trans)
      with full False show ?thesis by (subst read_line_loop.simps) (auto simp: Let_def)
    qed
  next
    case (eof s c1)
    have u: "LF \<notin> set (line0 @ s)" using eof 1(3) by simp
    with eof after_LF_none [OF u] show ?thesis
      by (subst read_line_loop.simps)
         (auto simp: Let_def spec_line_def index_byte_None [THEN iffD2] snd_spec_line)
  qed
qed

section \<open>Command lines\<close>

lemma parseLine_quoted:
  assumes "cmd \<noteq> []" and "list_all (\<lambda>c. upper_case c \<and> \<not> ascii_space c) cmd"
  shows "parseLine up (cmd @ SP # quote_args (a # as) @ CRLF) = (cmd, Inr (map Quote (a # as)))"
proof -
  let ?l = "cmd @ SP # quote_args (a # as)"
  obtain c cs where cmd: "cmd = c # cs" using assms(1) by (cases cmd) auto
  have q: "quote_args (a # as) \<noteq> []" "edged (quote_args (a # as))"
    by (simp_all add: quote_args_edged)
  have "hd ?l = c" "last ?l = last (quote_args (a # as))" using q by (simp_all add: cmd)
  then have "edged ?l" using q assms(2) by (auto simp: edged_def cmd upper_case_def)
  then have t: "TrimSpace (?l @ CRLF) = ?l" by (rule TrimSpace_edged_CRLF)
  have "SP \<notin> set cmd" using assms(2) by (auto simp: list_all_iff)
  then have sp: "SplitN2 SP ?l = (cmd, Some (quote_args (a # as)))" by (rule SplitN2_append)
  have u: "ToUpper up cmd = cmd" using assms(2) by (intro ToUpper_upper) (auto simp: list_all_iff)
  have "cmd @ SP # quote_args (a # as) @ CRLF = ?l @ CRLF" by simp
  then show ?thesis
    unfolding parseLine_def Let_def using assms(1)
    by (simp only: t sp) (simp add: u TrimSpace_edged [OF q(2)] parseTokens_quote_args)
qed

section \<open>Properties\<close>

text \<open>A handler reads back what \<open>Quote\<close> wrote: \<open>unquoteString\<close> inverts \<open>Quote\<close> for every byte
  string, and a quoted argument is never taken for a literal marker, whatever it contains.\<close>

lemma unquote_inverts_Quote:
  "unquoteString (Quote s) = s \<and> literalLength (Quote s) = None"
  by (simp add: unquote_Quote literalLength_Quote)

text \<open>C28. A command line made of an upper-case verb and quoted arguments, with its CRLF, is parsed
  into exactly that verb and those arguments; the bytes inside the quotes are arbitrary.\<close>

theorem parseLine_roundtrip:
  assumes "cmd \<noteq> []" and "list_all (\<lambda>c. upper_case c \<and> \<not> ascii_space c) cmd"
  shows "parseLine up (cmd @ SP # quote_args (a # as) @ CRLF) = (cmd, Inr (map Quote (a # as)))"
  using assms by (rule parseLine_quoted)

theorem parseLine_roundtrip_witness:
  "parseLine id (''RENAMESCRIPT'' @ SP # quote_args [[DQUOTE, SP], ''b''] @ CRLF)
     = (''RENAMESCRIPT'', Inr [Quote [DQUOTE, SP], Quote ''b''])"
proof -
  have "list_all (\<lambda>c. upper_case c \<and> \<not> ascii_space c) ''RENAMESCRIPT''"
    by (simp add: upper_case_def ascii_space_def)
  with parseLine_roundtrip [of "''RENAMESCRIPT''" id "[DQUOTE, SP]" "[''b'']"] show ?thesis by simp
qed

text \<open>C35. \<open>parseInt64\<close> accepts exactly the non-empty strings of ASCII digits whose value fits into an
  \<open>int64\<close>, and returns that value: its wrapping arithmetic never wraps.\<close>

theorem parseInt64_exact:
  "parseInt64 s = Inr m \<longleftrightarrow>
     s \<noteq> [] \<and> list_all is_digit s \<and> m = int (dec_val s) \<and> m \<le> max_int64"
  by (rule parseInt64_Inr)

text \<open>A literal marker \<open>{N}\<close> or \<open>{N+}\<close> is read back with its length and its synchronizing flag,
  for every length an \<open>int64\<close> holds.\<close>

lemma literalLength_roundtrip:
  assumes "0 \<le> n" and "n \<le> max_int64"
  shows "literalLength (literal_marker n nonSync) = Some (nonSync, Inr n)"
  using assms by (rule literalLength_marker)

text \<open>C4. On a peer that only sends, \<open>readBoundedLine\<close> equals its specification on the plain sequence of
  pending bytes, however these are cut into segments and whatever the buffer already holds: result
  and remaining bytes are those of the first LF, oversized lines are read to their end, and nothing
  but the reader's own fields changes.\<close>

theorem readBoundedLine_spec:
  assumes "quiet c"
  shows "\<exists>c'. readBoundedLine m c = Some (fst (spec_line m (pending c)), c')
     \<and> pending c' = snd (spec_line m (pending c)) \<and> moved c c'"
  using read_line_quiet [OF assms, of "[]" m] by (auto simp: readBoundedLine_def)

definition sample_io :: "net_ev list \<Rightarrow> netio" where
  "sample_io es = \<lparr>inp = es, rbuf = [], sent = [], wbuf = [], werr = None, wplan = Accepts,
     wtimeout = 0, now = 0, rdl = None, wdl = None, poisoned = False, cancelled = False, tlsPending = False\<rparr>"

theorem readBoundedLine_spec_witness:
  "\<exists>c'. readBoundedLine 10 (sample_io [Data ''NO'', Data (''OP'' @ CRLF @ ''X'')])
          = Some (Inr (''NOOP'' @ CRLF), c') \<and> pending c' = ''X''"
proof -
  let ?c = "sample_io [Data ''NO'', Data (''OP'' @ CRLF @ ''X'')]"
  have "quiet ?c" by (simp add: quiet_def sample_io_def expired_def)
  moreover have "spec_line 10 (pending ?c) = (Inr (''NOOP'' @ CRLF), ''X'')"
    by (simp add: pending_def sample_io_def spec_line_def)
  ultimately show ?thesis using readBoundedLine_spec [of ?c 10] by fastforce
qed

text \<open>Whatever the peer does - segments, pauses, silence until the deadline, resets, a server
  shutdown - a line that \<open>readBoundedLine\<close> returns is the front of the pending bytes, ends with CRLF,
  holds no other LF and no more than \<open>maxBytes\<close> bytes; a failure is one of the five reading errors.
  The writer and the rest of the connection are untouched.\<close>

lemma readBoundedLine_safe:
  assumes "readBoundedLine m c = Some (r, c')"
  shows "(case r of
      Inr l \<Rightarrow> pending c = l @ pending c' \<and> int (length l) \<le> m \<and> (\<exists>t. l = t @ CRLF \<and> LF \<notin> set t)
    | Inl e \<Rightarrow> e \<in> {ErrLineTooLong, ErrMissingCRLF, EOF, TimeoutErr, NetErr})
    \<and> read_frame c c'"
  using read_line_facts [of m "[]" c r c'] assms
  by (auto simp: readBoundedLine_def line_ok_def line_errors_def split: sum.splits)

end
