(* ===== verification/Options.thy ===== *)
theory Options
  imports Parser
begin

text \<open>
  The server's options (\<open>managesieveserver/options.go\<close>) and the interface of the embedding
  application (\<open>managesieveserver/session.go\<close>). Durations and times are nanoseconds. The hooks that
  only observe (\<open>OnCommand\<close>, \<open>OnTimeout\<close>) are present or not; their calls are recorded in the
  connection's trace. The Session is the application's code: it is a parameter, a record of functions
  over a state \<open>'s\<close> of its own.
\<close>

section \<open>Options\<close>

record Options =
  TLSConfig :: bool
  Implementation :: string
  Greeting :: string
  GreetingStartTLSHint :: bool
  SieveExtensions :: "string list"
  ExtraCapabilities :: "Capability list"
  MaxScriptSize :: int
  MaxLineLength :: int
  MaxAuthLiteral :: int
  IdleTimeout :: int
  AuthIdleTimeout :: int
  AbsoluteSessionTimeout :: int
  CommandTimeout :: int
  WriteTimeout :: int
  InsecureAuth :: bool
  MaxErrors :: int
  AuthFailuresExemptFromMaxErrors :: bool
  ErrorDelay :: int
  MaxErrorDelay :: int
  StrictSessionErrors :: bool
  RejectMessage :: string
  OnCommand :: bool
  OnTimeout :: bool

text \<open>A text between double quotes, as the raw string literals of the source have it.\<close>

abbreviation dq :: "string \<Rightarrow> string" where
  "dq s \<equiv> DQUOTE # s @ [DQUOTE]"

definition seconds :: "int \<Rightarrow> int" where
  "seconds n = n * 1000000000"

definition defaultMaxErrorDelay :: int where
  "defaultMaxErrorDelay = seconds 30"

definition defaultWriteTimeout :: int where
  "defaultWriteTimeout = seconds 60"

definition defaultMaxLineLength :: int where
  "defaultMaxLineLength = 8192"

definition defaultMaxAuthLiteral :: int where
  "defaultMaxAuthLiteral = 8192"

definition TimeoutIdle :: string where
  "TimeoutIdle = ''idle''"

definition TimeoutAbsolute :: string where
  "TimeoutAbsolute = ''absolute''"

definition defaults :: "Options \<Rightarrow> Options" where
  "defaults o0 =
     (let o1 = (if Implementation o0 = [] then o0\<lparr>Implementation := ''Go ManageSieve server''\<rparr> else o0);
          o2 = (if Greeting o1 = [] then o1\<lparr>Greeting := dq ''ManageSieve server ready''\<rparr> else o1);
          o3 = (if IdleTimeout o2 = 0 then o2\<lparr>IdleTimeout := seconds (30 * 60)\<rparr> else o2);
          o4 = (if MaxLineLength o3 = 0 then o3\<lparr>MaxLineLength := defaultMaxLineLength\<rparr> else o3);
          o5 = (if MaxAuthLiteral o4 = 0 then o4\<lparr>MaxAuthLiteral := defaultMaxAuthLiteral\<rparr> else o4);
          o6 = (if MaxErrors o5 = 0 then o5\<lparr>MaxErrors := 10\<rparr> else o5);
          o7 = (if MaxErrorDelay o6 = 0 then o6\<lparr>MaxErrorDelay := defaultMaxErrorDelay\<rparr> else o6);
          o8 = (if WriteTimeout o7 = 0 then o7\<lparr>WriteTimeout := defaultWriteTimeout\<rparr> else o7);
          o9 = (if RejectMessage o8 = [] then o8\<lparr>RejectMessage := dq ''Service not available''\<rparr> else o8)
      in o9)"

section \<open>What the application's code may do to its connection\<close>

text \<open>
  A call into the application that can call back: it returns, or calls \<open>Conn.Hijack\<close> and goes on
  according to whether that succeeded, or writes a response (\<open>Conn.OK\<close>, \<open>Conn.No\<close>), or asks for or
  sets the TLS flag (\<open>Conn.IsTLS\<close>, \<open>Conn.SetTLS\<close>).
\<close>

datatype 'r callback =
    CRet 'r
  | CHijack "bool \<Rightarrow> 'r callback"
  | COK string "'r callback"
  | CNo string "'r callback"
  | CIsTLS "bool \<Rightarrow> 'r callback"
  | CSetTLS bool "'r callback"

section \<open>The Session interface\<close>

text \<open>An error result is \<^const>\<open>Some\<close> error or \<^const>\<open>None\<close> for nil. The optional interfaces
  \<open>SessionLogin\<close> and \<open>SessionPutScriptWarnings\<close> are \<^const>\<open>None\<close> when the type assertion fails.\<close>

record 's Session =
  s_Close :: "'s \<Rightarrow> 's"
  s_AuthenticatePlain :: "string \<Rightarrow> string \<Rightarrow> string \<Rightarrow> 's \<Rightarrow> (goerr option \<times> 's) callback"
  s_ListScripts :: "'s \<Rightarrow> (goerr + ScriptInfo list) \<times> 's"
  s_GetScript :: "string \<Rightarrow> 's \<Rightarrow> (goerr + string) \<times> 's"
  s_PutScript :: "string \<Rightarrow> string \<Rightarrow> 's \<Rightarrow> (goerr + bool) \<times> 's"
  s_CheckScript :: "string \<Rightarrow> 's \<Rightarrow> (goerr + string) \<times> 's"
  s_SetActive :: "string \<Rightarrow> 's \<Rightarrow> goerr option \<times> 's"
  s_DeleteScript :: "string \<Rightarrow> 's \<Rightarrow> goerr option \<times> 's"
  s_RenameScript :: "string \<Rightarrow> string \<Rightarrow> 's \<Rightarrow> goerr option \<times> 's"
  s_HaveSpace :: "string \<Rightarrow> int \<Rightarrow> 's \<Rightarrow> goerr option \<times> 's"
  s_PutScriptWarnings :: "(string \<Rightarrow> string \<Rightarrow> 's \<Rightarrow> (goerr + bool \<times> string) \<times> 's) option"
  s_Login :: "(string \<Rightarrow> string \<Rightarrow> 's \<Rightarrow> (goerr option \<times> 's) callback) option"

text \<open>Everything a connection runs under: the resolved options, the session's code, the optional
  \<open>UnknownCommandHandler\<close>, and Go's Unicode upper-case table.\<close>

record 's env =
  opts :: Options
  ops :: "'s Session"
  UnknownCommandHandler :: "(string \<Rightarrow> string list \<Rightarrow> 's \<Rightarrow> ((bool \<times> bool) \<times> 's) callback) option"
  up :: "nat \<Rightarrow> nat"

section \<open>Facts\<close>

lemma defaults_bounds:
  "IdleTimeout (defaults opt) \<noteq> 0 \<and> MaxLineLength (defaults opt) \<noteq> 0 \<and> MaxAuthLiteral (defaults opt) \<noteq> 0
   \<and> MaxErrors (defaults opt) \<noteq> 0 \<and> MaxErrorDelay (defaults opt) \<noteq> 0 \<and> WriteTimeout (defaults opt) \<noteq> 0
   \<and> Implementation (defaults opt) \<noteq> [] \<and> Greeting (defaults opt) \<noteq> [] \<and> RejectMessage (defaults opt) \<noteq> []"
  by (simp add: defaults_def Let_def defaultMaxLineLength_def defaultMaxAuthLiteral_def
      defaultMaxErrorDelay_def defaultWriteTimeout_def seconds_def)

end
