(* ===== verification/Handshake.thy ===== *)
theory Handshake
  imports NetIO
begin

text \<open>
  The TLS handshake as the server's STARTTLS and the client's upgrade use it, and as the first write on a
  connection of a TLS listener runs it: an event of the peer's script, under the deadlines the code arms.
\<close>

section \<open>Handshakes\<close>

text \<open>The handshake, which \<open>crypto/tls\<close> runs on the socket itself: it ends at its deadline or with the
  cancellation, fails on anything that is not a handshake, and a handshake leaves only the encrypted
  stream.\<close>

fun tls_evs :: "int option \<Rightarrow> net_ev list \<Rightarrow> 'a netio_scheme
    \<Rightarrow> (goerr option \<times> 'a netio_scheme) option" where
  "tls_evs dl [] c =
     Some (Some (if expired dl (now c) then TimeoutErr else EOF), c\<lparr>inp := []\<rparr>)"
| "tls_evs dl (e # es) c =
     (if expired dl (now c) then Some (Some TimeoutErr, c\<lparr>inp := e # es\<rparr>)
      else case e of
        Data s \<Rightarrow> if s = [] then tls_evs dl es c else Some (Some NetErr, c\<lparr>inp := e # es\<rparr>)
      | Wait n \<Rightarrow>
          let t = now c + int n in
          (case dl of
             Some d \<Rightarrow>
               if d \<le> t then Some (Some TimeoutErr, c\<lparr>inp := Wait (nat (t - d)) # es, now := d\<rparr>)
               else tls_evs dl es (c\<lparr>now := t\<rparr>)
           | None \<Rightarrow> tls_evs dl es (c\<lparr>now := t\<rparr>))
      | Stall \<Rightarrow>
          (case dl of
             None \<Rightarrow> None
           | Some d \<Rightarrow> Some (Some TimeoutErr, c\<lparr>inp := e # es, now := d\<rparr>))
      | Reset \<Rightarrow> Some (Some NetErr, c\<lparr>inp := e # es\<rparr>)
      | Cancel \<Rightarrow> Some (Some TimeoutErr, forceReadUnblock (c\<lparr>inp := es, cancelled := True\<rparr>))
      | TlsHello h inner \<Rightarrow> Some (None, c\<lparr>inp := inner\<rparr>))"

definition min_deadline :: "int option \<Rightarrow> int option \<Rightarrow> int option" where
  "min_deadline a b = (case a of None \<Rightarrow> b | Some x \<Rightarrow>
     (case b of None \<Rightarrow> Some x | Some y \<Rightarrow> Some (min x y)))"

text \<open>\<open>HandshakeContext\<close> under the socket's deadline and the deadline of the command's context.\<close>

definition HandshakeContext :: "int option \<Rightarrow> 'a netio_scheme \<Rightarrow> (goerr option \<times> 'a netio_scheme) option" where
  "HandshakeContext ctx c = tls_evs (min_deadline (rdl c) ctx) (inp c) c"

text \<open>\<open>Flush\<close> on a connection whose TLS handshake may still be to come, as on every connection a TLS
  listener hands over (\<open>tls.Listen\<close> accepts before the handshake): \<open>tls.Conn.Write\<close> first runs the
  handshake, which reads the peer under the read deadline of the socket, if any. The write deadline is
  that of \<open>writeDeadlineConn\<close>, armed before. A handshake that failed fails every later write.\<close>

definition flush :: "'a netio_scheme \<Rightarrow> (goerr option \<times> 'a netio_scheme) option" where
  "flush c =
     (if tlsPending c \<and> werr c = None \<and> wbuf c \<noteq> [] then
        (case HandshakeContext None (armWrite c) of
           None \<Rightarrow> None
         | Some (Some e, c1) \<Rightarrow> Some (Some e, c1\<lparr>werr := Some e\<rparr>)
         | Some (None, c1) \<Rightarrow> net_write (c1\<lparr>tlsPending := False\<rparr>))
      else Flush c)"

section \<open>Facts\<close>

lemma tls_frame:
  assumes "tls_evs dl es c = Some (err, c')"
  shows "netio.more c' = netio.more c \<and> now c \<le> now c' \<and> wtimeout c' = wtimeout c \<and> rbuf c' = rbuf c
    \<and> sent c' = sent c \<and> wdl c' = wdl c \<and> (cancelled c \<longrightarrow> cancelled c') \<and> (poisoned c \<longrightarrow> poisoned c')
    \<and> (rdl c \<noteq> None \<longrightarrow> rdl c' \<noteq> None) \<and> (poisoned c' \<longrightarrow> poisoned c \<or> cancelled c' \<and> rdl c' \<noteq> None)
    \<and> evs_cost (inp c') \<le> evs_cost es"
  using assms
proof (induction dl es c rule: tls_evs.induct)
  case (2 dl e es c)
  show ?case
  proof (cases e)
    case (Data s)
    with 2(1,4) show ?thesis by (auto split: if_splits)
  next
    case (Wait n)
    let ?t = "now c + int n"
    show ?thesis
    proof (cases "expired dl (now c) \<or> (\<exists>d. dl = Some d \<and> d \<le> ?t)")
      case True
      with 2(4) Wait show ?thesis by (auto simp: expired_def split: if_splits)
    next
      case False
      then have n: "\<not> expired dl (now c)" by simp
      from False 2(4) Wait have r: "tls_evs dl es (c\<lparr>now := ?t\<rparr>) = Some (err, c')"
        by (auto simp: Let_def split: option.splits)
      show ?thesis
      proof (cases dl)
        case None
        from 2(2) [OF n Wait refl None r] show ?thesis by (auto simp: Wait)
      next
        case (Some d)
        with False have "\<not> d \<le> ?t" by simp
        from 2(3) [OF n Wait refl Some this r] show ?thesis by (auto simp: Wait)
      qed
    qed
  next
    case Stall
    with 2(4) show ?thesis by (auto simp: expired_def split: if_splits option.splits)
  next
    case (TlsHello h inner)
    with 2(4) show ?thesis by (auto simp: evs_cost_def split: if_splits)
  qed (use 2(4) in \<open>auto simp: forceReadUnblock_def split: if_splits\<close>)
qed auto

lemma tls_success:
  assumes "tls_evs dl es c = Some (None, c')"
  shows "\<exists>pre h post. es = pre @ TlsHello h (inp c') # post"
  using assms
proof (induction dl es c rule: tls_evs.induct)
  case (2 dl e es c)
  from 2(4) have "(\<exists>c1. tls_evs dl es c1 = Some (None, c') \<and> (\<exists>pre h post. es = pre @ TlsHello h (inp c') # post))
      \<or> (\<exists>h. e = TlsHello h (inp c'))"
    using 2(1-3) by (auto simp: Let_def split: net_ev.splits if_splits option.splits)
  then show ?case by (metis append_Cons append_Nil)
qed (auto split: if_splits)

lemma tls_deadline: "dl \<noteq> None \<Longrightarrow> tls_evs dl es c \<noteq> None"
  by (induction dl es c rule: tls_evs.induct) (auto simp: Let_def split: net_ev.splits option.splits)

lemma tls_werr: "tls_evs dl es c = Some (err, c') \<Longrightarrow> werr c' = werr c \<and> tlsPending c' = tlsPending c \<and> wbuf c' = wbuf c"
proof (induction dl es c rule: tls_evs.induct)
  case (2 dl e es c)
  then show ?case
    by (auto simp: forceReadUnblock_def Let_def split: net_ev.splits if_splits option.splits)
qed auto

text \<open>Without a deadline a handshake waits for a silent peer for ever; without silence it ends.\<close>

lemma tls_silent: "tls_evs None (map Wait ns @ Stall # es) c = None"
  by (induction ns arbitrary: c) (simp_all add: expired_def Let_def)

lemma tls_returns_unless_silent: "Stall \<notin> set es \<Longrightarrow> tls_evs dl es c \<noteq> None"
  by (induction dl es c rule: tls_evs.induct) (auto simp: Let_def split: net_ev.splits option.splits)

lemma tls_time:
  "tls_evs dl es c = Some (err, c') \<Longrightarrow> dl = Some d \<Longrightarrow> d \<le> m \<Longrightarrow> by_time m c \<Longrightarrow> by_time m c'"
proof (induction dl es c rule: tls_evs.induct)
  case (2 dl e es c)
  show ?case
  proof (cases "expired dl (now c)")
    case True
    with 2(4,7) show ?thesis by auto
  next
    case False
    then have d: "now c < d" using 2(5) by (simp add: expired_def)
    show ?thesis
    proof (cases e)
      case (Data s)
      with 2(1) [OF False Data] 2(4-7) False show ?thesis by (auto split: if_splits)
    next
      case (Wait n)
      let ?t = "now c + int n"
      show ?thesis
      proof (cases "d \<le> ?t")
        case True
        with Wait False 2(4-7) d show ?thesis by (auto simp: by_time_def expired_def Let_def split: option.splits)
      next
        case nd: False
        with Wait False 2(4,5) have r: "tls_evs dl es (c\<lparr>now := ?t\<rparr>) = Some (err, c')" by simp
        from nd d 2(6,7) have "by_time m (c\<lparr>now := ?t\<rparr>)"
          by (auto simp: by_time_def expired_def split: option.splits)
        with 2(3) [OF False Wait refl 2(5) nd r 2(5,6)] show ?thesis .
      qed
    next
      case Cancel
      with 2(4,7) False show ?thesis by (auto simp: by_time_def forceReadUnblock_def expired_def)
    qed (use 2(4-7) False d in \<open>auto simp: by_time_def expired_def split: if_splits option.splits\<close>)
  qed
qed (auto split: if_splits)

text \<open>A write keeps what \<open>Flush\<close> keeps of the socket; the handshake may read.\<close>

lemma net_write_frame:
  assumes "net_write c = Some (err, c')"
  shows "write_frame c c' \<and> sent c' @ wbuf c' = sent c @ wbuf c \<and> werr c' = (if err = None then werr c else err)
    \<and> (err = None \<longrightarrow> wbuf c' = [])"
  using assms
  by (auto simp: net_write_def write_frame_def full_write_def partial_write_def expired_def
      split: peer_write.splits if_splits option.splits)

lemma flush_cases:
  assumes "flush c = Some (err, c')"
  obtains (plain) "Flush c = Some (err, c')"
  | (failed) c1 where "tlsPending c" "err \<noteq> None" "HandshakeContext None (armWrite c) = Some (err, c1)"
      "c' = c1\<lparr>werr := err\<rparr>"
  | (secured) c1 where "tlsPending c" "werr c = None" "HandshakeContext None (armWrite c) = Some (None, c1)"
      "net_write (c1\<lparr>tlsPending := False\<rparr>) = Some (err, c')"
proof (cases "tlsPending c \<and> werr c = None \<and> wbuf c \<noteq> []")
  case True
  then show ?thesis using assms failed secured
    by (auto simp: flush_def split: option.splits prod.splits)
next
  case False
  then have "flush c = Flush c" unfolding flush_def by auto
  with assms plain show ?thesis by simp
qed

lemma flush_plain: "\<not> tlsPending c \<Longrightarrow> flush c = Flush c"
  by (simp add: flush_def)

lemma armWrite_frame [simp]:
  "netio.more (armWrite c) = netio.more c" "inp (armWrite c) = inp c" "rbuf (armWrite c) = rbuf c"
  "rdl (armWrite c) = rdl c" "now (armWrite c) = now c" "sent (armWrite c) = sent c"
  "wbuf (armWrite c) = wbuf c" "werr (armWrite c) = werr c" "wtimeout (armWrite c) = wtimeout c"
  "poisoned (armWrite c) = poisoned c" "cancelled (armWrite c) = cancelled c"
  "tlsPending (armWrite c) = tlsPending c"
  by (simp_all add: armWrite_def)

text \<open>What a flush may change: the handshake consumes of the script, the rest is as in \<open>Flush\<close>.\<close>

definition flush_frame :: "'a netio_scheme \<Rightarrow> 'a netio_scheme \<Rightarrow> bool" where
  "flush_frame c c' \<longleftrightarrow> netio.more c' = netio.more c \<and> rbuf c' = rbuf c \<and> evs_cost (inp c') \<le> evs_cost (inp c)
     \<and> wtimeout c' = wtimeout c \<and> now c \<le> now c' \<and> (cancelled c \<longrightarrow> cancelled c')
     \<and> (poisoned c \<longrightarrow> poisoned c') \<and> ((poisoned c \<longrightarrow> rdl c \<noteq> None) \<longrightarrow> (poisoned c' \<longrightarrow> rdl c' \<noteq> None))
     \<and> (tlsPending c' \<longrightarrow> tlsPending c)"

lemma flush_facts:
  assumes "flush c = Some (err, c')"
  shows "flush_frame c c' \<and> sent c' @ wbuf c' = sent c @ wbuf c \<and> (err = None \<longrightarrow> wbuf c' = [] \<and> werr c = None)"
  using assms
proof (cases rule: flush_cases)
  case plain
  with Flush_facts [OF plain] show ?thesis by (auto simp: flush_frame_def write_frame_def)
next
  case (failed c1)
  with tls_frame [OF failed(3) [unfolded HandshakeContext_def]] tls_werr [OF failed(3) [unfolded HandshakeContext_def]]
  show ?thesis by (auto simp: flush_frame_def)
next
  case (secured c1)
  with tls_frame [OF secured(3) [unfolded HandshakeContext_def]] tls_werr [OF secured(3) [unfolded HandshakeContext_def]]
    net_write_frame [OF secured(4)]
  show ?thesis by (auto simp: flush_frame_def write_frame_def)
qed

section \<open>The handshakes still to come\<close>

text \<open>The encrypted streams a script holds; reading uses them up and brings no new ones.\<close>

definition hellos :: "net_ev list \<Rightarrow> net_ev list set" where
  "hellos es = {inner. \<exists>h. TlsHello h inner \<in> set es}"

lemma hellos_simps [simp]:
  "hellos (Data s # es) = hellos es" "hellos (Wait n # es) = hellos es" "hellos [] = {}"
  "hellos (Stall # es) = hellos es" "hellos es \<subseteq> hellos (e # es)"
  by (auto simp: hellos_def)

lemma read_evs_hellos: "read_evs k es c = Some (r, c') \<Longrightarrow> hellos (inp c') \<subseteq> hellos es"
proof (induction k es c rule: read_evs.induct)
  case (2 k e es c)
  then have "hellos (inp c') \<subseteq> hellos es \<or> inp c' = e # es"
    by (auto simp: silence_def forceReadUnblock_def Let_def
        split: net_ev.splits option.splits if_splits)
  then show ?case by (metis hellos_simps(5) order_refl order_trans)
qed (auto split: if_splits)

lemma ReadSlice_hellos: "ReadSlice c = Some ((s, err), c') \<Longrightarrow> hellos (inp c') \<subseteq> hellos (inp c)"
proof (induction c arbitrary: s err c' rule: ReadSlice.induct)
  case (1 c)
  from 1(2) show ?case
  proof (cases rule: ReadSlice_cases)
    case (fail e c1)
    with read_evs_hellos [OF fail(3) [unfolded net_read_def]] show ?thesis by simp
  next
    case (more d c1)
    then have "\<not> bufio_size \<le> length (rbuf c)" by simp
    from 1(1) [OF more(1) this more(3) refl refl more(4)]
      read_evs_hellos [OF more(3) [unfolded net_read_def]] show ?thesis by auto
  qed simp_all
qed

lemma tls_hellos: "tls_evs dl es c = Some (Some e, c') \<Longrightarrow> hellos (inp c') \<subseteq> hellos es"
proof (induction dl es c rule: tls_evs.induct)
  case (2 dl e' es c)
  then have "hellos (inp c') \<subseteq> hellos es \<or> inp c' = e' # es \<or> (\<exists>n m. e' = Wait n \<and> inp c' = Wait m # es)"
    by (auto simp: forceReadUnblock_def Let_def split: net_ev.splits option.splits if_splits)
  then show ?case using hellos_simps(5) [of es e'] by (auto simp del: hellos_simps(5)) 
qed auto

end
