(* ===== verification/Conn.thy ===== *)
theory Conn
  imports Options Handshake
begin

text \<open>
  The state of a server connection and the helpers its handlers share (\<open>managesieveserver/conn.go\<close>):
  response writing, error accounting, deadlines, hijacking, capability lines. A connection extends the
  socket of \<open>NetIO\<close>; its trace records the calls into the application and the hooks, in order.
\<close>

section \<open>State\<close>

datatype scall =
    KListScripts
  | KGetScript string
  | KPutScript string string
  | KPutScriptWarnings string string
  | KCheckScript string
  | KSetActive string
  | KDeleteScript string
  | KRenameScript string string
  | KHaveSpace string int

text \<open>An authentication call is recorded when it returns, with its success; \<open>OCommand\<close> and \<open>OTimeout\<close>
  are the hooks.\<close>

datatype obs =
    OAuthPlain string string string bool
  | OLogin string string bool
  | OScript scall
  | OUnknown string "string list"
  | OCommand string int "goerr option"
  | OTimeout string
  | OSessionClose
  | ONetClose

record 's conn = netio +
  isTLS :: bool
  authenticated :: bool
  hijacked :: bool
  closePending :: bool
  errorCount :: int
  lastErr :: "goerr option"
  startTime :: int
  cmdStart :: int
  ctxDeadline :: "int option"
  registered :: bool
  session :: 's
  trace :: "obs list"

definition log_obs :: "obs \<Rightarrow> 's conn \<Rightarrow> 's conn" where
  "log_obs e c = c\<lparr>trace := trace c @ [e]\<rparr>"

text \<open>\<open>c.ctx.Err() != nil\<close>: the server was closed, or the absolute session timeout of the context
  has passed.\<close>

definition ctxErr :: "'s conn \<Rightarrow> bool" where
  "ctxErr c \<longleftrightarrow> cancelled c \<or> expired (ctxDeadline c) (now c)"

section \<open>Responses\<close>

definition writeLine :: "string \<Rightarrow> 's conn \<Rightarrow> 's conn" where
  "writeLine line c = WriteString CRLF (WriteString line c)"

definition ok :: "string \<Rightarrow> 's conn \<Rightarrow> 's conn" where
  "ok msg c = (if msg = [] then writeLine ''OK'' c else writeLine (''OK '' @ stripCRLF msg) c)"

definition no :: "string \<Rightarrow> 's conn \<Rightarrow> 's conn" where
  "no msg c = (if msg = [] then writeLine ''NO'' c else writeLine (''NO '' @ stripCRLF msg) c)"

section \<open>Taking over the connection, and calls into the application\<close>

definition Hijack :: "'s conn \<Rightarrow> (goerr option \<times> 's conn) option" where
  "Hijack c =
     (if authenticated c then
        Some (Some (PlainErr ''managesieveserver: Hijack only valid during authentication''), c)
      else if hijacked c then
        Some (Some (PlainErr ''managesieveserver: connection already hijacked''), c)
      else do {
        (err, c1) \<leftarrow> flush c;
        case err of
          Some e \<Rightarrow> Some (Some e, c1)
        | None \<Rightarrow> Some (None, (setDeadline None c1)\<lparr>hijacked := True, registered := False\<rparr>)
      })"

primrec run_callback :: "'r callback \<Rightarrow> 's conn \<Rightarrow> ('r \<times> 's conn) option" where
  "run_callback (CRet r) = (\<lambda>c. Some (r, c))"
| "run_callback (CHijack k) = (\<lambda>c. case Hijack c of
       None \<Rightarrow> None
     | Some (err, c1) \<Rightarrow> run_callback (k (err = None)) c1)"
| "run_callback (COK msg k) = (\<lambda>c. run_callback k (ok msg c))"
| "run_callback (CNo msg k) = (\<lambda>c. run_callback k (no msg c))"
| "run_callback (CIsTLS k) = (\<lambda>c. run_callback (k (isTLS c)) c)"
| "run_callback (CSetTLS v k) = (\<lambda>c. run_callback k (c\<lparr>isTLS := v\<rparr>))"

section \<open>Deadlines and time\<close>

definition nextReadDeadline :: "'s env \<Rightarrow> 's conn \<Rightarrow> int option" where
  "nextReadDeadline env c =
     (let opt = opts env;
          idleTimeout = (if \<not> authenticated c \<and> 0 < AuthIdleTimeout opt
                         then AuthIdleTimeout opt else IdleTimeout opt);
          deadline = (if 0 < idleTimeout then Some (now c + idleTimeout) else None)
      in if 0 < AbsoluteSessionTimeout opt then
           let absDeadline = startTime c + AbsoluteSessionTimeout opt in
           (case deadline of
              None \<Rightarrow> Some absDeadline
            | Some d \<Rightarrow> if absDeadline < d then Some absDeadline else Some d)
         else deadline)"

text \<open>\<open>if d := c.nextReadDeadline(); !d.IsZero() { c.setReadDeadline(d) }\<close>\<close>

definition armRead :: "'s env \<Rightarrow> 's conn \<Rightarrow> 's conn" where
  "armRead env c = (case nextReadDeadline env c of
       None \<Rightarrow> c
     | Some d \<Rightarrow> setReadDeadline (Some d) c)"

definition readLine :: "'s env \<Rightarrow> 's conn \<Rightarrow> ((goerr + string) \<times> 's conn) option" where
  "readLine env c = readBoundedLine (MaxLineLength (opts env)) c"

text \<open>The back-off: a timer raced with the connection's context.\<close>

definition errorDelay :: "Options \<Rightarrow> int \<Rightarrow> int" where
  "errorDelay opt count =
     (let d = wrap64 (count * ErrorDelay opt); limit = MaxErrorDelay opt
      in if 0 < limit \<and> limit < d then limit else d)"

definition sleep :: "int \<Rightarrow> 's conn \<Rightarrow> 's conn" where
  "sleep d c =
     (if d \<le> 0 \<or> ctxErr c then c
      else c\<lparr>now := (case ctxDeadline c of
                       None \<Rightarrow> now c + d
                     | Some t \<Rightarrow> min (now c + d) t)\<rparr>)"

definition applyErrorDelay :: "'s env \<Rightarrow> 's conn \<Rightarrow> 's conn" where
  "applyErrorDelay env c =
     (if ErrorDelay (opts env) \<le> 0 then c else sleep (errorDelay (opts env) (errorCount c)) c)"

section \<open>Error accounting\<close>

definition mkError :: "string \<Rightarrow> string \<Rightarrow> Error" where
  "mkError cd msg = \<lparr>err_Code = cd, err_Message = msg, err_Close = False\<rparr>"

definition clientError :: "'s env \<Rightarrow> string \<Rightarrow> 's conn \<Rightarrow> 's conn" where
  "clientError env msg c =
     (let c1 = c\<lparr>errorCount := errorCount c + 1\<rparr>;
          c2 = (if lastErr c1 = None then c1\<lparr>lastErr := Some (MsErr (mkError [] msg))\<rparr> else c1);
          c3 = applyErrorDelay env c2
      in no (Quote (SanitizeText msg)) c3)"

definition sessionError :: "'s env \<Rightarrow> goerr \<Rightarrow> 's conn \<Rightarrow> 's conn" where
  "sessionError env err c =
     (let c1 = c\<lparr>lastErr := Some err\<rparr> in
      case as_Error err of
        Some merr \<Rightarrow>
          let c2 = no (wireMessage (up env) merr) c1 in
          if err_Close merr then c2\<lparr>closePending := True\<rparr> else c2
      | None \<Rightarrow>
          if errors_Is err ErrCloseConnection then
            (no (dq ''internal error'') c1)\<lparr>closePending := True\<rparr>
          else if StrictSessionErrors (opts env) then no (dq ''internal error'') c1
          else no (err_text (up env) err) c1)"

definition authFailure :: "'s env \<Rightarrow> goerr \<Rightarrow> 's conn \<Rightarrow> 's conn" where
  "authFailure env err c =
     (let c1 = (if \<not> AuthFailuresExemptFromMaxErrors (opts env)
                then c\<lparr>errorCount := errorCount c + 1\<rparr> else c)
      in sessionError env err (applyErrorDelay env c1))"

definition quotaMaxSize :: "'s env \<Rightarrow> int \<Rightarrow> 's conn \<Rightarrow> 's conn" where
  "quotaMaxSize env sz c =
     (let err = mkError ''QUOTA/MAXSIZE''
            (''Script size '' @ dec_int sz @ '' exceeds maximum allowed size ''
             @ dec_int (MaxScriptSize (opts env)));
          c1 = c\<lparr>lastErr := Some (MsErr err)\<rparr>
      in no (wireMessage (up env) err) c1)"

definition maxErrorsExceeded :: "'s env \<Rightarrow> 's conn \<Rightarrow> bool" where
  "maxErrorsExceeded env c \<longleftrightarrow> 0 < MaxErrors (opts env) \<and> MaxErrors (opts env) \<le> errorCount c"

section \<open>Capabilities\<close>

definition startTLSAvailable :: "'s env \<Rightarrow> 's conn \<Rightarrow> bool" where
  "startTLSAvailable env c \<longleftrightarrow> TLSConfig (opts env) \<and> \<not> isTLS c"

definition authAllowed :: "'s env \<Rightarrow> 's conn \<Rightarrow> bool" where
  "authAllowed env c \<longleftrightarrow> InsecureAuth (opts env) \<or> isTLS c"

definition capability_line :: "Capability \<Rightarrow> string" where
  "capability_line capa =
     (if cap_HasValue capa then Quote (cap_Name capa) @ SP # Quote (cap_Value capa)
      else Quote (cap_Name capa))"

definition capability_lines :: "'s env \<Rightarrow> 's conn \<Rightarrow> string list" where
  "capability_lines env c =
     (let opt = opts env in
      [dq ''IMPLEMENTATION'' @ SP # Quote (Implementation opt),
       dq ''VERSION'' @ SP # dq ''1.0'',
       dq ''SIEVE'' @ SP # Quote (Join (SieveExtensions opt) '' '')]
      @ (if startTLSAvailable env c then [dq ''STARTTLS''] else [])
      @ (if authAllowed env c then [dq ''SASL'' @ SP # dq ''PLAIN''] else [dq ''SASL'' @ SP # dq []])
      @ (if 0 < MaxScriptSize opt then [dq ''MAXSCRIPTSIZE'' @ SP # dq (dec_int (MaxScriptSize opt))]
         else [])
      @ map capability_line (ExtraCapabilities opt))"

definition writeLines :: "string list \<Rightarrow> 's conn \<Rightarrow> 's conn" where
  "writeLines ls c = fold writeLine ls c"

definition sendCapabilityBlock :: "'s env \<Rightarrow> 's conn \<Rightarrow> 's conn" where
  "sendCapabilityBlock env c = writeLines (capability_lines env c) c"

definition greeting_line :: "'s env \<Rightarrow> 's conn \<Rightarrow> string" where
  "greeting_line env c =
     (if GreetingStartTLSHint (opts env) \<and> startTLSAvailable env c
      then ''OK (STARTTLS) '' @ Greeting (opts env) else ''OK '' @ Greeting (opts env))"

definition sendGreeting :: "'s env \<Rightarrow> 's conn \<Rightarrow> 's conn" where
  "sendGreeting env c =
     (let c1 = sendCapabilityBlock env c in writeLine (greeting_line env c1) c1)"

section \<open>Teardown\<close>

definition close_conn :: "'s env \<Rightarrow> 's conn \<Rightarrow> 's conn" where
  "close_conn env c =
     (let c1 = log_obs OSessionClose (c\<lparr>session := s_Close (ops env) (session c)\<rparr>)
      in if \<not> hijacked c1 then log_obs ONetClose c1 else c1)"

end
