(* ===== verification/ConnFacts.thy ===== *)
theory ConnFacts
  imports Conn
begin

text \<open>
  What the helpers of \<open>Conn\<close> leave alone. Two relations carry the proofs of every handler: \<open>responds\<close>
  for the steps that only queue a response and count errors, \<open>io_step\<close> for reads and flushes. A bundle
  of field equations follows from each.
\<close>

section \<open>Steps that only respond\<close>

definition responds :: "'s conn \<Rightarrow> 's conn \<Rightarrow> bool" where
  "responds c c' \<longleftrightarrow>
     inp c' = inp c \<and> rbuf c' = rbuf c \<and> sent c' = sent c \<and>
     werr c' = werr c \<and> wplan c' = wplan c \<and> wtimeout c' = wtimeout c \<and>
     rdl c' = rdl c \<and> wdl c' = wdl c \<and> poisoned c' = poisoned c \<and>
     cancelled c' = cancelled c \<and> isTLS c' = isTLS c \<and>
     authenticated c' = authenticated c \<and> hijacked c' = hijacked c \<and>
     startTime c' = startTime c \<and> cmdStart c' = cmdStart c \<and>
     ctxDeadline c' = ctxDeadline c \<and> registered c' = registered c \<and>
     session c' = session c \<and> trace c' = trace c
     \<and> (\<exists>w. wbuf c' = wbuf c @ w) \<and> now c \<le> now c' \<and> errorCount c \<le> errorCount c'
     \<and> errorCount c' \<le> errorCount c + 1 \<and> (closePending c \<longrightarrow> closePending c')
     \<and> tlsPending c' = tlsPending c \<and> (\<forall>t. ctxDeadline c = Some t \<longrightarrow> now c' \<le> max (now c) t)"

lemma responds_fields:
  assumes "responds c c'"
  shows
    "inp c' = inp c" "rbuf c' = rbuf c" "sent c' = sent c" "werr c' = werr c"
    "wplan c' = wplan c" "wtimeout c' = wtimeout c" "rdl c' = rdl c" "wdl c' = wdl c"
    "poisoned c' = poisoned c" "cancelled c' = cancelled c" "isTLS c' = isTLS c"
    "authenticated c' = authenticated c" "hijacked c' = hijacked c" "startTime c' = startTime c"
    "cmdStart c' = cmdStart c" "ctxDeadline c' = ctxDeadline c" "registered c' = registered c"
    "session c' = session c" "trace c' = trace c" "pending c' = pending c" "cost c' = cost c"
    "tlsPending c' = tlsPending c"
  using assms by (simp_all add: responds_def pending_def cost_def)

lemma responds_mono:
  assumes "responds c c'"
  shows "now c \<le> now c'" "errorCount c \<le> errorCount c'" "errorCount c' \<le> errorCount c + 1"
    "closePending c \<Longrightarrow> closePending c'" "\<exists>w. wbuf c' = wbuf c @ w"
    "ctxDeadline c = Some t \<Longrightarrow> now c' \<le> max (now c) t"
  using assms by (simp_all add: responds_def)

lemma responds_refl [simp]: "responds c c"
  by (simp add: responds_def)

lemma responds_trans:
  assumes "responds a b" "responds b c" "errorCount b = errorCount a \<or> errorCount c = errorCount b"
  shows "responds a c"
proof -
  obtain w w' where "wbuf b = wbuf a @ w" "wbuf c = wbuf b @ w'"
    using responds_mono(5) assms by blast
  then have w: "\<exists>u. wbuf c = wbuf a @ u" by simp
  have t: "\<forall>t. ctxDeadline a = Some t \<longrightarrow> now c \<le> max (now a) t"
  proof (intro allI impI)
    fix t assume t: "ctxDeadline a = Some t"
    then have "ctxDeadline b = Some t" using responds_fields(16) [OF assms(1)] by simp
    from responds_mono(6) [OF assms(2) this] responds_mono(6) [OF assms(1) t] show "now c \<le> max (now a) t" by simp
  qed
  have m: "now a \<le> now c" "errorCount a \<le> errorCount c" "errorCount c \<le> errorCount a + 1"
    "closePending a \<longrightarrow> closePending c"
    using responds_mono(1-4) [OF assms(1)] responds_mono(1-4) [OF assms(2)] assms(3) by auto
  show ?thesis unfolding responds_def
    using w t m by (simp add: responds_fields [OF assms(1)] responds_fields [OF assms(2)])
qed

text \<open>The building blocks: queued bytes, the clock, one counted error, the recorded error, closure.\<close>

lemma responds_write: "responds c (WriteString s c)"
  by (simp add: WriteString_def responds_def)

lemma responds_state:
  assumes "n = now c" "errorCount c \<le> k" "k \<le> errorCount c + 1" "closePending c \<longrightarrow> b"
  shows "responds c (c\<lparr>now := n, errorCount := k, lastErr := e, closePending := b\<rparr>)"
  using assms by (simp add: responds_def)

lemma responds_lastErr: "responds c (c\<lparr>lastErr := e\<rparr>)"
  by (simp add: responds_def)

lemma responds_closePending: "responds c (c\<lparr>closePending := True\<rparr>)"
  by (simp add: responds_def)

lemma WriteString_count [simp]:
  "errorCount (WriteString s c) = errorCount c" "lastErr (WriteString s c) = lastErr c"
  "closePending (WriteString s c) = closePending c"
  by (simp_all add: WriteString_def)

lemma writeLine_count [simp]:
  "errorCount (writeLine s c) = errorCount c" "lastErr (writeLine s c) = lastErr c"
  "closePending (writeLine s c) = closePending c" "now (writeLine s c) = now c"
  by (simp_all add: writeLine_def)

lemma responds_writeLine: "responds c (writeLine s c)"
  unfolding writeLine_def by (rule responds_trans [OF responds_write responds_write]) simp

lemma no_count [simp]:
  "errorCount (no s c) = errorCount c" "lastErr (no s c) = lastErr c"
  "closePending (no s c) = closePending c" "now (no s c) = now c"
  "errorCount (ok s c) = errorCount c" "lastErr (ok s c) = lastErr c"
  "closePending (ok s c) = closePending c" "now (ok s c) = now c"
  by (simp_all add: no_def ok_def)

lemma responds_no: "responds c (no s c)" and responds_ok: "responds c (ok s c)"
  by (simp_all add: no_def ok_def responds_writeLine)

lemma sleep_now: "now c \<le> now (sleep d c)"
  by (auto simp: sleep_def ctxErr_def expired_def split: option.splits)

lemma sleep_by: "ctxDeadline c = Some t \<Longrightarrow> now (sleep d c) \<le> max (now c) t"
  by (auto simp: sleep_def)

lemma responds_sleep: "responds c (sleep d c)"
  using sleep_now [of c d] sleep_by [of c] by (simp add: responds_def sleep_def)

lemma sleep_count [simp]:
  "errorCount (sleep d c) = errorCount c" "lastErr (sleep d c) = lastErr c"
  "closePending (sleep d c) = closePending c"
  by (simp_all add: sleep_def)

lemma delay_count [simp]:
  "errorCount (applyErrorDelay env c) = errorCount c" "lastErr (applyErrorDelay env c) = lastErr c"
  "closePending (applyErrorDelay env c) = closePending c"
  by (simp_all add: applyErrorDelay_def)

lemma responds_delay: "responds c (applyErrorDelay env c)"
  by (simp add: applyErrorDelay_def responds_sleep)

lemma clientError_count [simp]:
  "errorCount (clientError env m c) = errorCount c + 1"
  "closePending (clientError env m c) = closePending c"
  "lastErr (clientError env m c) =
     (if lastErr c = None then Some (MsErr (mkError [] m)) else lastErr c)"
  by (simp_all add: clientError_def Let_def)

lemma responds_clientError: "responds c (clientError env m c)"
proof -
  let ?c2 = "c\<lparr>errorCount := errorCount c + 1,
      lastErr := if lastErr c = None then Some (MsErr (mkError [] m)) else lastErr c\<rparr>"
  have 1: "responds c ?c2"
    using responds_state [of _ c "errorCount c + 1" "closePending c"] by simp
  have 2: "clientError env m c = no (Quote (SanitizeText m)) (applyErrorDelay env ?c2)"
    by (simp add: clientError_def Let_def)
  have "responds ?c2 (clientError env m c)" unfolding 2
    by (rule responds_trans [OF responds_delay responds_no]) simp
  from responds_trans [OF 1 this] show ?thesis by simp
qed

lemma sessionError_count [simp]:
  "errorCount (sessionError env e c) = errorCount c" "lastErr (sessionError env e c) = Some e"
  "now (sessionError env e c) = now c"
  by (simp_all add: sessionError_def Let_def split: option.splits)

lemma responds_no_close: "responds c ((no s (c\<lparr>lastErr := e\<rparr>))\<lparr>closePending := True\<rparr>)"
proof -
  have "responds c (no s (c\<lparr>lastErr := e\<rparr>))"
    by (rule responds_trans [OF responds_lastErr responds_no]) simp
  from responds_trans [OF this responds_closePending] show ?thesis by simp
qed

lemma responds_no_err: "responds c (no s (c\<lparr>lastErr := e\<rparr>))"
  by (rule responds_trans [OF responds_lastErr responds_no]) simp

lemma responds_sessionError: "responds c (sessionError env e c)"
  by (simp add: sessionError_def Let_def responds_no_close responds_no_err split: option.splits)

lemma authFailure_count [simp]:
  "errorCount (authFailure env e c) =
     (if AuthFailuresExemptFromMaxErrors (opts env) then errorCount c else errorCount c + 1)"
  "lastErr (authFailure env e c) = Some e"
  by (simp_all add: authFailure_def Let_def)

lemma responds_authFailure: "responds c (authFailure env e c)"
proof -
  let ?c1 = "if \<not> AuthFailuresExemptFromMaxErrors (opts env)
    then c\<lparr>errorCount := errorCount c + 1\<rparr> else c"
  have 1: "responds c ?c1"
    using responds_state [of _ c "errorCount c + 1" "closePending c" "lastErr c"] by simp
  have "responds ?c1 (authFailure env e c)"
    unfolding authFailure_def Let_def
    by (rule responds_trans [OF responds_delay responds_sessionError]) simp
  from responds_trans [OF 1 this] show ?thesis by (simp split: if_splits)
qed

lemma quotaMaxSize_count [simp]:
  "errorCount (quotaMaxSize env n c) = errorCount c" "now (quotaMaxSize env n c) = now c"
  "closePending (quotaMaxSize env n c) = closePending c"
  by (simp_all add: quotaMaxSize_def Let_def)

lemma responds_quotaMaxSize: "responds c (quotaMaxSize env n c)"
  by (simp add: quotaMaxSize_def Let_def responds_no_err)

lemma writeLines_count [simp]:
  "errorCount (writeLines ls c) = errorCount c" "lastErr (writeLines ls c) = lastErr c"
  "closePending (writeLines ls c) = closePending c" "now (writeLines ls c) = now c"
  by (induction ls arbitrary: c) (simp_all add: writeLines_def)

lemma responds_writeLines: "responds c (writeLines ls c)"
proof (induction ls arbitrary: c)
  case (Cons l ls)
  have "responds c (writeLines ls (writeLine l c))"
    by (rule responds_trans [OF responds_writeLine Cons]) simp
  then show ?case by (simp add: writeLines_def)
qed (simp add: writeLines_def)

lemma greeting_count [simp]:
  "errorCount (sendCapabilityBlock env c) = errorCount c"
  "lastErr (sendCapabilityBlock env c) = lastErr c"
  "closePending (sendCapabilityBlock env c) = closePending c"
  "now (sendCapabilityBlock env c) = now c"
  "errorCount (sendGreeting env c) = errorCount c" "lastErr (sendGreeting env c) = lastErr c"
  "closePending (sendGreeting env c) = closePending c" "now (sendGreeting env c) = now c"
  by (simp_all add: sendCapabilityBlock_def sendGreeting_def Let_def)

lemma responds_capabilities: "responds c (sendCapabilityBlock env c)"
  by (simp add: sendCapabilityBlock_def responds_writeLines)

lemma responds_greeting: "responds c (sendGreeting env c)"
  unfolding sendGreeting_def Let_def
  by (rule responds_trans [OF responds_capabilities responds_writeLine]) simp

lemmas responds_intros =
  responds_write responds_writeLine responds_no responds_ok responds_sleep responds_delay
  responds_clientError responds_sessionError responds_authFailure responds_quotaMaxSize
  responds_writeLines responds_capabilities responds_greeting responds_no_close responds_no_err

lemmas responds_simps [simp] =
  responds_fields [OF responds_write]
  responds_fields [OF responds_writeLine]
  responds_fields [OF responds_no]
  responds_fields [OF responds_ok]
  responds_fields [OF responds_sleep]
  responds_fields [OF responds_delay]
  responds_fields [OF responds_clientError]
  responds_fields [OF responds_sessionError]
  responds_fields [OF responds_authFailure]
  responds_fields [OF responds_quotaMaxSize]
  responds_fields [OF responds_writeLines]
  responds_fields [OF responds_capabilities]
  responds_fields [OF responds_greeting]

lemmas responds_monos =
  responds_mono(1) [OF responds_write]
  responds_mono(1) [OF responds_writeLine]
  responds_mono(1) [OF responds_no]
  responds_mono(1) [OF responds_ok]
  responds_mono(1) [OF responds_sleep]
  responds_mono(1) [OF responds_delay]
  responds_mono(1) [OF responds_clientError]
  responds_mono(1) [OF responds_sessionError]
  responds_mono(1) [OF responds_authFailure]
  responds_mono(1) [OF responds_quotaMaxSize]
  responds_mono(1) [OF responds_writeLines]
  responds_mono(1) [OF responds_capabilities]
  responds_mono(1) [OF responds_greeting]

declare responds_monos [frame_facts]

section \<open>Fields set one by one\<close>

lemma log_obs_fields [simp]:
  "inp (log_obs e c) = inp c" "rbuf (log_obs e c) = rbuf c" "sent (log_obs e c) = sent c"
  "wbuf (log_obs e c) = wbuf c" "werr (log_obs e c) = werr c" "wplan (log_obs e c) = wplan c"
  "wtimeout (log_obs e c) = wtimeout c" "now (log_obs e c) = now c" "rdl (log_obs e c) = rdl c"
  "wdl (log_obs e c) = wdl c" "poisoned (log_obs e c) = poisoned c"
  "cancelled (log_obs e c) = cancelled c" "isTLS (log_obs e c) = isTLS c"
  "authenticated (log_obs e c) = authenticated c" "hijacked (log_obs e c) = hijacked c"
  "closePending (log_obs e c) = closePending c" "errorCount (log_obs e c) = errorCount c"
  "lastErr (log_obs e c) = lastErr c" "startTime (log_obs e c) = startTime c"
  "cmdStart (log_obs e c) = cmdStart c" "ctxDeadline (log_obs e c) = ctxDeadline c"
  "registered (log_obs e c) = registered c" "session (log_obs e c) = session c"
  "trace (log_obs e c) = trace c @ [e]" "cost (log_obs e c) = cost c" "tlsPending (log_obs e c) = tlsPending c"
  "pending (log_obs e c) = pending c"
  by (simp_all add: log_obs_def cost_def pending_def)

section \<open>Reads and flushes\<close>

definition io_step :: "'s conn \<Rightarrow> 's conn \<Rightarrow> bool" where
  "io_step c c' \<longleftrightarrow> netio.more c' = netio.more c \<and> now c \<le> now c' \<and> cost c' \<le> cost c
     \<and> wtimeout c' = wtimeout c \<and> (cancelled c \<longrightarrow> cancelled c') \<and> (poisoned c \<longrightarrow> poisoned c')
     \<and> (tlsPending c' \<longrightarrow> tlsPending c)"

lemma io_step_fields:
  assumes "io_step c c'"
  shows "isTLS c' = isTLS c" "authenticated c' = authenticated c" "hijacked c' = hijacked c"
    "closePending c' = closePending c" "errorCount c' = errorCount c" "lastErr c' = lastErr c"
    "startTime c' = startTime c" "cmdStart c' = cmdStart c" "ctxDeadline c' = ctxDeadline c"
    "registered c' = registered c" "session c' = session c" "trace c' = trace c"
    "wtimeout c' = wtimeout c"
  using assms by (cases c; cases c'; simp add: io_step_def)+

lemma io_step_mono: "io_step c c' \<Longrightarrow> now c \<le> now c'" "io_step c c' \<Longrightarrow> cost c' \<le> cost c"
  by (simp_all add: io_step_def)

lemma io_step_refl [simp]: "io_step c c"
  by (simp add: io_step_def)

lemma io_step_trans: "io_step a b \<Longrightarrow> io_step b c \<Longrightarrow> io_step a c"
  by (auto simp: io_step_def)

lemma io_step_read: "read_frame c c' \<Longrightarrow> cost c' \<le> cost c \<Longrightarrow> io_step c c'"
  by (simp add: io_step_def read_frame_def)

lemma io_step_Flush: "Flush c = Some (err, c') \<Longrightarrow> io_step c c'"
  using Flush_facts [of c err c'] by (simp add: io_step_def write_frame_def cost_def)

lemma io_step_flush: "flush c = Some (err, c') \<Longrightarrow> io_step c c'"
  using flush_facts [of c err c'] by (simp add: io_step_def flush_frame_def cost_def)

lemma setReadDeadline_fields [simp]:
  "tlsPending (setReadDeadline d c) = tlsPending c"
  "cost (setReadDeadline d c) = cost c" "pending (setReadDeadline d c) = pending c"
  "now (setReadDeadline d c) = now c" "netio.more (setReadDeadline d c) = netio.more c"
  "sent (setReadDeadline d c) = sent c" "wbuf (setReadDeadline d c) = wbuf c"
  "rbuf (setReadDeadline d c) = rbuf c" "werr (setReadDeadline d c) = werr c"
  "wplan (setReadDeadline d c) = wplan c" "inp (setReadDeadline d c) = inp c"
  "wtimeout (setReadDeadline d c) = wtimeout c" "wdl (setReadDeadline d c) = wdl c"
  "cancelled (setReadDeadline d c) = cancelled c" "poisoned (setReadDeadline d c) = poisoned c"
  by (simp_all add: setReadDeadline_def cost_def pending_def)

lemma setDeadline_fields [simp]:
  "tlsPending (setDeadline d c) = tlsPending c"
  "cost (setDeadline d c) = cost c" "pending (setDeadline d c) = pending c"
  "now (setDeadline d c) = now c" "netio.more (setDeadline d c) = netio.more c"
  "sent (setDeadline d c) = sent c" "wbuf (setDeadline d c) = wbuf c"
  "rbuf (setDeadline d c) = rbuf c" "werr (setDeadline d c) = werr c"
  "wplan (setDeadline d c) = wplan c" "inp (setDeadline d c) = inp c"
  "wtimeout (setDeadline d c) = wtimeout c" 
  "cancelled (setDeadline d c) = cancelled c" "poisoned (setDeadline d c) = poisoned c"
  by (simp_all add: setDeadline_def cost_def pending_def)

lemma armRead_fields [simp]:
  "tlsPending (armRead env c) = tlsPending c"
  "cost (armRead env c) = cost c" "pending (armRead env c) = pending c"
  "now (armRead env c) = now c" "netio.more (armRead env c) = netio.more c"
  "sent (armRead env c) = sent c" "wbuf (armRead env c) = wbuf c" "rbuf (armRead env c) = rbuf c"
  "werr (armRead env c) = werr c" "wplan (armRead env c) = wplan c" "inp (armRead env c) = inp c"
  "wtimeout (armRead env c) = wtimeout c" "wdl (armRead env c) = wdl c"
  "cancelled (armRead env c) = cancelled c" "poisoned (armRead env c) = poisoned c"
  by (simp_all add: armRead_def split: option.splits)

lemma io_step_deadline:
  "io_step c (setReadDeadline d c)" "io_step c (setDeadline d c)" "io_step c (armRead env c)"
  by (simp_all add: io_step_def)

lemmas deadline_conn_fields [simp] =
  io_step_fields [OF io_step_deadline(1)] io_step_fields [OF io_step_deadline(2)]
  io_step_fields [OF io_step_deadline(3)]

section \<open>The absolute limit\<close>

text \<open>In time: while no write has failed the clock has not passed the absolute session timeout, and a
  failed write adds at most the write timeout.\<close>

definition timed :: "'s env \<Rightarrow> 's conn \<Rightarrow> bool" where
  "timed env c \<longleftrightarrow> 0 < AbsoluteSessionTimeout (opts env) \<and> 0 < wtimeout c \<and> \<not> tlsPending c
     \<and> (\<exists>t. ctxDeadline c = Some t \<and> t \<le> startTime c + AbsoluteSessionTimeout (opts env))
     \<and> now c \<le> startTime c + AbsoluteSessionTimeout (opts env) + late_by c
     \<and> (poisoned c \<longrightarrow> expired (rdl c) (now c))"

lemma expired_mono: "expired d t \<Longrightarrow> t \<le> u \<Longrightarrow> expired d u"
  by (simp add: expired_def split: option.splits)

lemma timed_responds:
  assumes "responds c c'" "timed env c" shows "timed env c'"
proof -
  obtain t where t: "ctxDeadline c = Some t" "t \<le> startTime c + AbsoluteSessionTimeout (opts env)"
    using assms(2) by (auto simp: timed_def)
  have "0 \<le> late_by c" using assms(2) by (simp add: timed_def late_by_def)
  then have "now c' \<le> startTime c + AbsoluteSessionTimeout (opts env) + late_by c"
    using responds_mono(6) [OF assms(1) t(1)] t(2) assms(2) by (simp add: timed_def max_def split: if_splits)
  with assms t(1) expired_mono [OF _ responds_mono(1) [OF assms(1)]] show ?thesis
    by (auto simp: timed_def responds_fields late_by_def)
qed

lemma timed_upd [simp]:
  "timed env (c\<lparr>lastErr := e\<rparr>) = timed env c" "timed env (c\<lparr>closePending := b\<rparr>) = timed env c"
  "timed env (c\<lparr>cmdStart := t\<rparr>) = timed env c" "timed env (c\<lparr>session := u\<rparr>) = timed env c"
  "timed env (c\<lparr>isTLS := b\<rparr>) = timed env c" "timed env (c\<lparr>hijacked := b\<rparr>) = timed env c"
  "timed env (c\<lparr>registered := b\<rparr>) = timed env c" "timed env (c\<lparr>authenticated := b\<rparr>) = timed env c"
  "timed env (c\<lparr>errorCount := k\<rparr>) = timed env c"
  "timed env (c\<lparr>rbuf := s\<rparr>) = timed env c" "timed env (c\<lparr>wbuf := s\<rparr>) = timed env c"
  "timed env (log_obs ev c) = timed env c"
  by (simp_all add: timed_def late_by_def)

lemma timed_setDeadline: "timed env c \<Longrightarrow> timed env (setReadDeadline d c)" "timed env c \<Longrightarrow> timed env (setDeadline d c)"
  by (auto simp: timed_def late_by_def setReadDeadline_def setDeadline_def)

lemma timed_Flush:
  assumes "Flush c = Some (err, c')" "timed env c" shows "timed env c'"
proof -
  have w: "write_frame c c'" using Flush_facts [OF assms(1)] by blast
  have "now c' \<le> startTime c + AbsoluteSessionTimeout (opts env) + late_by c'"
    by (rule Flush_time [OF assms(1)]) (use assms(2) in \<open>simp_all add: timed_def\<close>)
  with assms(2) w io_step_fields(7,9) [OF io_step_Flush [OF assms(1)]] expired_mono [of "rdl c" "now c" "now c'"]
  show ?thesis by (simp add: timed_def write_frame_def)
qed

lemma timed_flush: "flush c = Some (err, c') \<Longrightarrow> timed env c \<Longrightarrow> timed env c'"
  using timed_Flush [of c err c' env] by (simp add: flush_plain timed_def)

text \<open>Under the armed deadline every read ends in time.\<close>

definition limit :: "'s env \<Rightarrow> 's conn \<Rightarrow> int" where
  "limit env c = startTime c + AbsoluteSessionTimeout (opts env) + late_by c"

lemma nextReadDeadline_absolute:
  "0 < AbsoluteSessionTimeout (opts env)
     \<Longrightarrow> \<exists>d. nextReadDeadline env c = Some d \<and> d \<le> startTime c + AbsoluteSessionTimeout (opts env)"
  by (auto simp: nextReadDeadline_def Let_def)

lemma expired_Some: "expired d t \<Longrightarrow> \<exists>x. d = Some x \<and> x \<le> t"
  by (simp add: expired_def split: option.splits)

lemma timed_arm:
  assumes "timed env c" shows "by_time (limit env c) (armRead env c)"
proof -
  obtain d where d: "nextReadDeadline env c = Some d" "d \<le> startTime c + AbsoluteSessionTimeout (opts env)"
    using nextReadDeadline_absolute [of env c] assms by (auto simp: timed_def)
  have "0 \<le> late_by c" using assms by (simp add: timed_def late_by_def)
  with d assms expired_Some [of "rdl c" "now c"] show ?thesis
    by (auto simp: by_time_def limit_def timed_def armRead_def setReadDeadline_def)
qed

lemma timed_deadline:
  assumes "timed env c"
  shows "by_time (limit env c) (case nextReadDeadline env c of None \<Rightarrow> c | Some d \<Rightarrow> setDeadline (Some d) c)"
proof -
  obtain d where d: "nextReadDeadline env c = Some d" "d \<le> startTime c + AbsoluteSessionTimeout (opts env)"
    using nextReadDeadline_absolute [of env c] assms by (auto simp: timed_def)
  have "0 \<le> late_by c" using assms by (simp add: timed_def late_by_def)
  with d assms expired_Some [of "rdl c" "now c"] show ?thesis
    by (auto simp: by_time_def limit_def timed_def setDeadline_def)
qed

lemma timed_by:
  assumes "io_step c c'" "werr c' = werr c" "by_time (limit env c) c'" "timed env c"
  shows "timed env c'"
  using assms io_step_fields(7,9,13) [OF assms(1)]
  by (auto simp: timed_def by_time_def limit_def late_by_def io_step_def)

lemma io_step_readLine: "readLine env c = Some (r, c') \<Longrightarrow> io_step c c'"
  unfolding readLine_def readBoundedLine_def
  by (drule read_line_facts) (simp add: io_step_read)

lemma io_step_ReadFull: "ReadFull n c = Some (r, c') \<Longrightarrow> io_step c c'"
  by (auto simp: ReadFull_def read_ok_def dest!: read_n_facts intro!: io_step_read)

lemma io_step_CopyN: "CopyN n c = Some (r, c') \<Longrightarrow> io_step c c'"
  by (cases r) (auto simp: CopyN_def read_ok_def dest!: read_n_facts intro!: io_step_read)

section \<open>Deadlines\<close>

text \<open>With an idle timeout, or an absolute one, every read of the server runs under a deadline.\<close>

definition guarded :: "'s env \<Rightarrow> bool" where
  "guarded env \<longleftrightarrow> 0 < IdleTimeout (opts env)"

lemma nextReadDeadline_guarded: "guarded env \<Longrightarrow> nextReadDeadline env c \<noteq> None"
  by (auto simp: nextReadDeadline_def guarded_def Let_def split: option.splits)

text \<open>A poisoned connection keeps a deadline.\<close>

definition armed :: "'a netio_scheme \<Rightarrow> bool" where
  "armed c \<longleftrightarrow> (poisoned c \<longrightarrow> rdl c \<noteq> None)"

lemma armed_setDeadline [simp]:
  "armed c \<Longrightarrow> armed (setReadDeadline d c)" "armed c \<Longrightarrow> armed (setDeadline d c)"
  by (simp_all add: armed_def setReadDeadline_def setDeadline_def)

lemma armRead_rdl: "guarded env \<Longrightarrow> armed c \<Longrightarrow> rdl (armRead env c) \<noteq> None"
  using nextReadDeadline_guarded [of env c]
  by (auto simp: armRead_def setReadDeadline_def armed_def)

end
