(* ===== verification/Protocol.thy ===== *)
theory Protocol
  imports ConnFacts
begin

text \<open>
  The abstract specification of a connection: the state machine of RFC 5804 that
  \<open>managesieveserver/session.go\<close> documents, as a step relation on phases labelled by the calls into
  the application. It knows nothing of lines, literals, buffers or deadlines. The phases are ordered:
  a connection never goes back.
\<close>

section \<open>Phases\<close>

datatype phase = NonAuthenticated | Authenticated | Ending | SessionClosed | Closed

fun phase_rank :: "phase \<Rightarrow> nat" where
  "phase_rank NonAuthenticated = 0"
| "phase_rank Authenticated = 1"
| "phase_rank Ending = 2"
| "phase_rank SessionClosed = 3"
| "phase_rank Closed = 4"

lemma phase_rank_inj: "phase_rank p = phase_rank q \<Longrightarrow> p = q"
  by (cases p; cases q) simp_all

instantiation phase :: linorder
begin

definition less_eq_phase :: "phase \<Rightarrow> phase \<Rightarrow> bool" where
  "less_eq_phase p q \<longleftrightarrow> phase_rank p \<le> phase_rank q"

definition less_phase :: "phase \<Rightarrow> phase \<Rightarrow> bool" where
  "less_phase p q \<longleftrightarrow> phase_rank p < phase_rank q"

instance
  by standard (auto simp: less_eq_phase_def less_phase_def intro: phase_rank_inj)

end

lemmas phase_order = less_eq_phase_def less_phase_def

section \<open>Steps\<close>

text \<open>An authentication is attempted only in the non-authenticated state and moves on when it succeeds;
  script operations belong to the authenticated state; an unknown command and the command hook leave
  the state alone; a timeout is reported once, at the end; the session is closed once, and the socket,
  when the library still owns it, after the session.\<close>

inductive rfc_step :: "phase \<Rightarrow> obs \<Rightarrow> phase \<Rightarrow> bool" where
  plain: "rfc_step NonAuthenticated (OAuthPlain z u p b) (if b then Authenticated else NonAuthenticated)"
| login: "rfc_step NonAuthenticated (OLogin u p b) (if b then Authenticated else NonAuthenticated)"
| script: "rfc_step Authenticated (OScript k) Authenticated"
| unknown: "s \<le> Authenticated \<Longrightarrow> rfc_step s (OUnknown cmd args) s"
| command: "s \<le> Authenticated \<Longrightarrow> rfc_step s (OCommand cmd d e) s"
| timeout: "s \<le> Authenticated \<Longrightarrow> rfc_step s (OTimeout kind) Ending"
| session_close: "s \<le> Ending \<Longrightarrow> rfc_step s OSessionClose SessionClosed"
| net_close: "rfc_step SessionClosed ONetClose Closed"

inductive_cases rfc_step_elims [elim!]:
  "rfc_step s (OAuthPlain z u p b) t"
  "rfc_step s (OLogin u p b) t"
  "rfc_step s (OScript k) t"
  "rfc_step s (OUnknown cmd args) t"
  "rfc_step s (OCommand cmd d e) t"
  "rfc_step s (OTimeout kind) t"
  "rfc_step s OSessionClose t"
  "rfc_step s ONetClose t"

inductive rfc_run :: "phase \<Rightarrow> obs list \<Rightarrow> phase \<Rightarrow> bool" where
  run_refl [simp, intro]: "rfc_run s [] s"
| run_step: "rfc_step s e t \<Longrightarrow> rfc_run t es u \<Longrightarrow> rfc_run s (e # es) u"

inductive_simps rfc_run_Nil [simp]: "rfc_run s [] u"
inductive_simps rfc_run_Cons: "rfc_run s (e # es) u"

code_pred (modes: i \<Rightarrow> i \<Rightarrow> o \<Rightarrow> bool, i \<Rightarrow> i \<Rightarrow> i \<Rightarrow> bool) rfc_step .
code_pred (modes: i \<Rightarrow> i \<Rightarrow> o \<Rightarrow> bool) rfc_run .

lemma rfc_run_append: "rfc_run s (es @ fs) u \<longleftrightarrow> (\<exists>t. rfc_run s es t \<and> rfc_run t fs u)"
  by (induction es arbitrary: s) (auto simp: rfc_run_Cons)

lemma rfc_run_one: "rfc_run s [e] t \<longleftrightarrow> rfc_step s e t"
  by (auto simp: rfc_run_Cons)

lemma rfc_step_mono: "rfc_step s e t \<Longrightarrow> s \<le> t"
  by (induction rule: rfc_step.induct) (simp_all add: phase_order)

lemma rfc_run_mono: "rfc_run s es t \<Longrightarrow> s \<le> t"
  by (induction rule: rfc_run.induct) (auto dest: rfc_step_mono intro: order_trans)

section \<open>What an accepted run says\<close>

fun auth_success :: "obs \<Rightarrow> bool" where
  "auth_success (OAuthPlain z u p b) = b"
| "auth_success (OLogin u p b) = b"
| "auth_success _ = False"

fun auth_attempt :: "obs \<Rightarrow> bool" where
  "auth_attempt (OAuthPlain z u p b) = True"
| "auth_attempt (OLogin u p b) = True"
| "auth_attempt _ = False"

fun is_script :: "obs \<Rightarrow> bool" where
  "is_script (OScript k) = True"
| "is_script _ = False"

fun is_timeout :: "obs \<Rightarrow> bool" where
  "is_timeout (OTimeout k) = True"
| "is_timeout _ = False"

lemma auth_success_attempt: "auth_success e \<Longrightarrow> auth_attempt e"
  by (cases e) auto

lemma step_success: "rfc_step s e t \<Longrightarrow> s = NonAuthenticated \<Longrightarrow> t \<noteq> NonAuthenticated \<Longrightarrow>
    t \<le> Authenticated \<Longrightarrow> auth_success e"
  by (induction rule: rfc_step.induct) (auto simp: phase_order split: if_splits)

text \<open>A phase later than the first was reached through a successful authentication, or the run is at
  its end.\<close>

lemma run_authenticated:
  "rfc_run s es t \<Longrightarrow> s = NonAuthenticated \<Longrightarrow> t = Authenticated \<Longrightarrow> \<exists>e\<in>set es. auth_success e"
proof (induction rule: rfc_run.induct)
  case (run_step s e t es u)
  show ?case
  proof (cases "t = NonAuthenticated")
    case True
    with run_step show ?thesis by auto
  next
    case False
    from rfc_run_mono [OF run_step(2)] run_step(5) have "t \<le> Authenticated" by simp
    with run_step False show ?thesis by (auto dest: step_success)
  qed
qed simp

lemma run_script_authenticated:
  assumes "rfc_run NonAuthenticated (es @ OScript k # fs) u"
  shows "\<exists>e\<in>set es. auth_success e"
proof -
  from assms obtain t where "rfc_run NonAuthenticated es t" "rfc_run t (OScript k # fs) u"
    by (auto simp: rfc_run_append)
  then show ?thesis by (auto simp: rfc_run_Cons intro: run_authenticated)
qed

lemma run_no_attempt: "rfc_run s es t \<Longrightarrow> Authenticated \<le> s \<Longrightarrow> \<not> (\<exists>e\<in>set es. auth_attempt e)"
proof (induction rule: rfc_run.induct)
  case (run_step s e t es u)
  from rfc_step_mono [OF run_step(1)] run_step have "\<not> (\<exists>e\<in>set es. auth_attempt e)" by auto
  moreover have "\<not> auth_attempt e"
    using run_step(1,4) by (cases rule: rfc_step.cases) (auto simp: phase_order)
  ultimately show ?case by simp
qed simp

lemma step_success_phase: "rfc_step s e t \<Longrightarrow> auth_success e \<Longrightarrow> t = Authenticated"
  by (induction rule: rfc_step.induct) auto

lemma run_one_success:
  assumes "rfc_run s (es @ e # fs) u" "auth_success e"
  shows "\<not> (\<exists>e\<in>set fs. auth_attempt e)"
proof -
  from assms obtain t t' where "rfc_step t e t'" "rfc_run t' fs u"
    by (auto simp: rfc_run_append rfc_run_Cons)
  with step_success_phase [OF this(1) assms(2)] run_no_attempt show ?thesis by auto
qed

lemma run_counts:
  "rfc_run s es t \<Longrightarrow>
     length (filter is_timeout es) \<le> (if s < Ending then 1 else 0)
     \<and> count_list es OSessionClose = (if s < SessionClosed \<and> SessionClosed \<le> t then 1 else 0)
     \<and> count_list es ONetClose = (if s < Closed \<and> t = Closed then 1 else 0)"
proof (induction rule: rfc_run.induct)
  case (run_refl s)
  then show ?case by (cases s) (simp_all add: phase_order)
next
  case (run_step s e t es u)
  note m = rfc_run_mono [OF run_step(2)]
  from run_step(1) show ?case
    using m run_step(3)
    by (cases rule: rfc_step.cases) (cases u; auto simp: phase_order split: if_splits)+
qed

end
