(* ===== verification/ConnAuth.thy ===== *)
theory ConnAuth
  imports ConnFacts GoBase64
begin

text \<open>
  Authentication and STARTTLS (\<open>managesieveserver/conn.go\<close>): the AUTHENTICATE exchange with its
  initial or continuation response, literal bodies, base64 and the NUL-separated PLAIN message; LOGIN;
  the TLS upgrade. A step that may wait for the peer has no result when nothing ever wakes it.
\<close>

section \<open>Literal bodies\<close>

text \<open>What the three readers of literals share: the deadline is armed, the body read by \<open>rd\<close>, then the
  rest of its line under the same deadline, and the deadline is cleared whatever the outcome.\<close>

definition read_body :: "('s conn \<Rightarrow> ((string \<times> goerr option) \<times> 's conn) option) \<Rightarrow> 's env \<Rightarrow> 's conn
    \<Rightarrow> ((goerr + string \<times> string) \<times> 's conn) option" where
  "read_body rd env c = do {
     ((data, err), c1) \<leftarrow> rd (armRead env c);
     case err of
       Some e \<Rightarrow> Some (Inl e, setReadDeadline None c1)
     | None \<Rightarrow> do {
         (r, c2) \<leftarrow> readLine env c1;
         Some (case r of Inl e \<Rightarrow> Inl e | Inr rest \<Rightarrow> Inr (data, rest), setReadDeadline None c2)
       }
   }"

definition readAuthLiteral :: "'s env \<Rightarrow> int \<Rightarrow> 's conn \<Rightarrow> (string option \<times> 's conn) option" where
  "readAuthLiteral env len c = do {
     (r, c1) \<leftarrow> read_body (ReadFull (nat len)) env c;
     case r of
       Inl e \<Rightarrow> Some (None, (no (dq ''Authentication failed'') (c1\<lparr>lastErr := Some e\<rparr>))\<lparr>closePending := True\<rparr>)
     | Inr (data, rest) \<Rightarrow> Some (Some data, c1)
   }"

section \<open>AUTHENTICATE\<close>

text \<open>\<^const>\<open>None\<close> as a result: the response has been written and the handler returns.\<close>

definition auth_literal :: "'s env \<Rightarrow> string \<Rightarrow> bool \<times> (string + int) \<Rightarrow> 's conn
    \<Rightarrow> (string option \<times> 's conn) option" where
  "auth_literal env arg marker c =
     (case snd marker of
        Inl e \<Rightarrow> Some (None, (clientError env ''Invalid literal size'' c)\<lparr>closePending := True\<rparr>)
      | Inr len \<Rightarrow>
          if MaxAuthLiteral (opts env) < len
          then Some (None, (clientError env ''Invalid literal size'' c)\<lparr>closePending := True\<rparr>)
          else readAuthLiteral env len c)"

definition auth_initial :: "'s env \<Rightarrow> string \<Rightarrow> 's conn \<Rightarrow> (string option \<times> 's conn) option" where
  "auth_initial env arg c =
     (case literalLength arg of
        Some marker \<Rightarrow> auth_literal env arg marker c
      | None \<Rightarrow> Some (Some (unquoteString arg), c))"

definition auth_continuation :: "'s env \<Rightarrow> 's conn \<Rightarrow> (string option \<times> 's conn) option" where
  "auth_continuation env c = do {
     (err, c1) \<leftarrow> Flush (writeLine (dq []) c);
     if err \<noteq> None then Some (None, c1\<lparr>closePending := True\<rparr>)
     else do {
       (r, c2) \<leftarrow> readLine env (armRead env c1);
       let c3 = setReadDeadline None c2;
       case r of
         Inl e \<Rightarrow> Some (None,
             (no (dq ''Authentication failed'') (c3\<lparr>lastErr := Some e\<rparr>))\<lparr>closePending := True\<rparr>)
       | Inr authLine \<Rightarrow>
           let authData = TrimSpace authLine in
           if authData = ''*'' then
             Some (None, no (dq ''Authentication cancelled'')
               (c3\<lparr>lastErr := Some (MsErr (mkError [] ''Authentication cancelled''))\<rparr>))
           else auth_initial env authData c3
     }
   }"

definition call_AuthenticatePlain :: "'s env \<Rightarrow> string \<Rightarrow> string \<Rightarrow> string \<Rightarrow> 's conn
    \<Rightarrow> (goerr option \<times> 's conn) option" where
  "call_AuthenticatePlain env zid nid pw c = do {
     ((err, s), c1) \<leftarrow> run_callback (s_AuthenticatePlain (ops env) zid nid pw (session c)) c;
     Some (err, log_obs (OAuthPlain zid nid pw (err = None)) (c1\<lparr>session := s\<rparr>))
   }"

text \<open>The end both authenticating commands share.\<close>

definition auth_result :: "'s env \<Rightarrow> goerr option \<Rightarrow> 's conn \<Rightarrow> 's conn" where
  "auth_result env err c =
     (case err of
        Some e \<Rightarrow> authFailure env e c
      | None \<Rightarrow>
          if hijacked c then c
          else writeLine (''OK '' @ dq ''Authenticated'') (c\<lparr>authenticated := True\<rparr>))"

definition auth_finish :: "'s env \<Rightarrow> string \<Rightarrow> 's conn \<Rightarrow> 's conn option" where
  "auth_finish env authData c =
     (case DecodeString authData of
        None \<Rightarrow> Some (clientError env ''Invalid authentication data''
                  (c\<lparr>lastErr := Some (PlainErr ''illegal base64 data'')\<rparr>))
      | Some decoded \<Rightarrow>
          (case Split (CHR 0x00) decoded of
             [authzID, authnID, password] \<Rightarrow>
               if password = [] then
                 Some (authFailure env (MsErr (mkError [] (dq ''Authentication failed''))) c)
               else do {
                 (err, c1) \<leftarrow> call_AuthenticatePlain env authzID authnID password c;
                 Some (auth_result env err c1)
               }
           | _ \<Rightarrow> Some (clientError env ''Invalid authentication format'' c)))"

definition insecure_msg :: string where
  "insecure_msg = ''Authentication not permitted on insecure connection. Use STARTTLS first.''"

definition handleAuthenticate :: "'s env \<Rightarrow> string list \<Rightarrow> 's conn \<Rightarrow> 's conn option" where
  "handleAuthenticate env args c =
     (if authenticated c then Some (clientError env ''Already authenticated'' c)
      else case args of
        [] \<Rightarrow> Some (clientError env ''Syntax: AUTHENTICATE mechanism'' c)
      | mech # rest \<Rightarrow>
          if \<not> authAllowed env c then Some (clientError env insecure_msg c)
          else if ToUpper (up env) (unquoteString mech) \<noteq> ''PLAIN'' then
            Some (clientError env ''Unsupported authentication mechanism'' c)
          else do {
            (authData, c1) \<leftarrow> (case rest of
                arg # _ \<Rightarrow> auth_initial env arg c
              | [] \<Rightarrow> auth_continuation env c);
            case authData of
              None \<Rightarrow> Some c1
            | Some d \<Rightarrow> auth_finish env d c1
          })"

section \<open>LOGIN\<close>

definition call_Login :: "'s env \<Rightarrow> (string \<Rightarrow> string \<Rightarrow> 's \<Rightarrow> (goerr option \<times> 's) callback)
    \<Rightarrow> string \<Rightarrow> string \<Rightarrow> 's conn \<Rightarrow> (goerr option \<times> 's conn) option" where
  "call_Login env login user pw c = do {
     ((err, s), c1) \<leftarrow> run_callback (login user pw (session c)) c;
     Some (err, log_obs (OLogin user pw (err = None)) (c1\<lparr>session := s\<rparr>))
   }"

definition handleLogin :: "'s env \<Rightarrow> (string \<Rightarrow> string \<Rightarrow> 's \<Rightarrow> (goerr option \<times> 's) callback)
    \<Rightarrow> string list \<Rightarrow> 's conn \<Rightarrow> 's conn option" where
  "handleLogin env login args c =
     (if authenticated c then Some (clientError env ''Already authenticated'' c)
      else if \<not> authAllowed env c then Some (clientError env insecure_msg c)
      else case args of
        user # pw # _ \<Rightarrow> do {
          (err, c1) \<leftarrow> call_Login env login (unquoteString user) (unquoteString pw) c;
          Some (auth_result env err c1)
        }
      | _ \<Rightarrow> Some (clientError env ''Syntax: LOGIN address password'' c))"

section \<open>STARTTLS\<close>

definition handleStartTLS :: "'s env \<Rightarrow> int option \<Rightarrow> 's conn \<Rightarrow> (bool \<times> 's conn) option" where
  "handleStartTLS env ctx c =
     (if \<not> TLSConfig (opts env) then Some (False, clientError env ''STARTTLS not supported'' c)
      else if isTLS c then Some (False, clientError env ''TLS already active'' c)
      else if authenticated c then
        Some (False, clientError env ''STARTTLS not permitted after authentication'' c)
      else if rbuf c \<noteq> [] then
        Some (True, no (dq ''Pipelined data after STARTTLS is not allowed'')
          (c\<lparr>lastErr := Some (PlainErr ''pipelined data after STARTTLS'')\<rparr>))
      else do {
        (err, c1) \<leftarrow> Flush (writeLine (''OK '' @ dq ''Begin TLS negotiation'') c);
        if err \<noteq> None then Some (True, c1)
        else do {
          let c2 = (case nextReadDeadline env c1 of None \<Rightarrow> c1 | Some d \<Rightarrow> setDeadline (Some d) c1);
          (herr, c3) \<leftarrow> HandshakeContext ctx c2;
          let c4 = setDeadline None c3;
          case herr of
            Some e \<Rightarrow> Some (True, c4\<lparr>lastErr := Some e\<rparr>)
          | None \<Rightarrow>
              Some (False, sendGreeting env
                (c4\<lparr>rbuf := [], wbuf := [], werr := None, isTLS := True\<rparr>))
        }
      })"

section \<open>What the steps leave alone\<close>

lemma bind_Some_iff: "Option.bind m f = Some y \<longleftrightarrow> (\<exists>x. m = Some x \<and> f x = Some y)"
  by (cases m) auto

lemma read_body_cases:
  assumes "read_body rd env c = Some (r, c')"
  obtains
    (body) e data c1 where "rd (armRead env c) = Some ((data, Some e), c1)" "r = Inl e"
      "c' = setReadDeadline None c1"
  | (line) e data c1 c2 where "rd (armRead env c) = Some ((data, None), c1)"
      "readLine env c1 = Some (Inl e, c2)" "r = Inl e" "c' = setReadDeadline None c2"
  | (complete) data rest c1 c2 where "rd (armRead env c) = Some ((data, None), c1)"
      "readLine env c1 = Some (Inr rest, c2)" "r = Inr (data, rest)" "c' = setReadDeadline None c2"
proof -
  obtain data err c1 where 1: "rd (armRead env c) = Some ((data, err), c1)"
    using assms by (auto simp: read_body_def bind_Some_iff)
  show ?thesis
  proof (cases err)
    case (Some e)
    with 1 assms body show ?thesis by (auto simp: read_body_def)
  next
    case None
    obtain l c2 where 2: "readLine env c1 = Some (l, c2)"
      using assms 1 None by (auto simp: read_body_def bind_Some_iff)
    show ?thesis
    proof (cases l)
      case (Inl e)
      with 1 2 None assms line show ?thesis by (auto simp: read_body_def)
    next
      case (Inr rest)
      with 1 2 None assms complete show ?thesis by (auto simp: read_body_def)
    qed
  qed
qed

lemma io_step_read_body:
  assumes rd: "\<And>c x c1. rd c = Some (x, c1) \<Longrightarrow> io_step c c1"
    and "read_body rd env c = Some (r, c')"
  shows "io_step c c'"
  using assms(2)
  by (cases rule: read_body_cases)
     (blast intro: io_step_trans io_step_deadline io_step_readLine dest: rd)+

lemma readLine_cost:
  assumes "readLine env c = Some (Inr l, c')"
  shows "cost c' + length l \<le> cost c" "\<exists>t. l = t @ CRLF"
  using read_line_facts [OF assms [unfolded readLine_def readBoundedLine_def]]
  by (auto simp: line_ok_def)

lemma read_body_cost:
  assumes rd: "\<And>c x c1. rd c = Some (x, c1) \<Longrightarrow> io_step c c1"
    and "read_body rd env c = Some (Inr (data, rest), c')"
  shows "cost c' < cost c"
  using assms(2)
proof (cases rule: read_body_cases)
  case (complete dat rst c1 c2)
  have "cost c1 \<le> cost c" using rd [OF complete(1)] by (simp add: io_step_def)
  moreover have "cost c2 < cost c1" using readLine_cost [OF complete(2)] by auto
  ultimately show ?thesis using complete by simp
qed simp_all

end
