(* ===== verification/ConnScript.thy ===== *)
theory ConnScript
  imports ConnAuth
begin

text \<open>
  Literal arguments and the script commands (\<open>managesieveserver/conn.go\<close>): \<open>resolveLiteralArgs\<close>,
  \<open>readScriptArgument\<close> and the eight handlers of the AUTHENTICATED state. Each handler is one definition,
  with every branch of the code; the calls into the session are recorded in the trace.
\<close>

section \<open>Literal arguments\<close>

definition literalDeferred :: "string \<Rightarrow> nat \<Rightarrow> bool" where
  "literalDeferred cmd idx =
     (if cmd = ''PUTSCRIPT'' \<or> cmd = ''AUTHENTICATE'' then idx = 1
      else if cmd = ''CHECKSCRIPT'' then idx = 0
      else False)"

text \<open>One literal argument: the rejections, the continuation for the synchronizing form, the body and
  the rest of the command. The result is the body and the tokens that follow it, or \<^const>\<open>None\<close> when a
  response has been written.\<close>

definition resolve_step :: "'s env \<Rightarrow> bool \<times> (string + int) \<Rightarrow> 's conn
    \<Rightarrow> ((string \<times> string list) option \<times> 's conn) option" where
  "resolve_step env marker c =
     (case marker of
        (nonSync, Inl e) \<Rightarrow>
          let c1 = clientError env ''Invalid literal string length'' c
          in Some (None, if nonSync then c1\<lparr>closePending := True\<rparr> else c1)
      | (nonSync, Inr len) \<Rightarrow>
          if MaxLineLength (opts env) < len then
            (let c1 = clientError env ''Literal argument too large'' c
             in Some (None, if nonSync \<or> rbuf c1 \<noteq> [] then c1\<lparr>closePending := True\<rparr> else c1))
          else do {
            (err, c1) \<leftarrow> (if nonSync then Some (None, c) else Flush (writeLine ''+'' c));
            if err \<noteq> None then Some (None, c1\<lparr>closePending := True\<rparr>)
            else do {
              (r, c2) \<leftarrow> read_body (ReadFull (nat len)) env c1;
              case r of
                Inl e \<Rightarrow> Some (None,
                  (no (dq ''Failed to read literal argument'') (c2\<lparr>lastErr := Some e\<rparr>))
                    \<lparr>closePending := True\<rparr>)
              | Inr (body, rest) \<Rightarrow>
                  (case parseTokens (TrimSpace rest) of
                     Inl perr \<Rightarrow> Some (None,
                       clientError env (''Invalid command syntax: '' @ perr)
                         (c2\<lparr>lastErr := Some (PlainErr perr)\<rparr>))
                   | Inr extra \<Rightarrow> Some (Some (body, extra), c2))
            }
          })"

lemma resolve_step_cases:
  assumes "resolve_step env marker c = Some (Some (body, extra), c')"
  obtains nonSync len c1 rest where
    "marker = (nonSync, Inr len)" "len \<le> MaxLineLength (opts env)"
    "(if nonSync then Some (None, c) else Flush (writeLine ''+'' c)) = Some (None, c1)"
    "read_body (ReadFull (nat len)) env c1 = Some (Inr (body, rest), c')"
    "parseTokens (TrimSpace rest) = Inr extra"
  using assms
  by (auto simp: resolve_step_def Let_def split: prod.splits sum.splits if_splits Option.bind_splits)

lemma resolve_step_cost:
  assumes "resolve_step env marker c = Some (Some (body, extra), c')"
  shows "cost c' < cost c"
proof -
  from assms obtain ns len c1 rest where
    f: "(if ns then Some (None, c) else Flush (writeLine ''+'' c)) = Some (None, c1)" and
    b: "read_body (ReadFull (nat len)) env c1 = Some (Inr (body, rest), c')"
    by (rule resolve_step_cases)
  have "cost c1 \<le> cost c"
    using f io_step_mono(2) [OF io_step_Flush, of "writeLine ''+'' c" None c1]
    by (simp split: if_splits)
  moreover have "cost c' < cost c1"
    by (rule read_body_cost [OF _ b]) (rule io_step_ReadFull)
  ultimately show ?thesis by simp
qed

function resolveLiteralArgs :: "'s env \<Rightarrow> string \<Rightarrow> string list \<Rightarrow> 's conn
    \<Rightarrow> (string list option \<times> 's conn) option" where
  "resolveLiteralArgs env cmd args c =
     (if args = [] then Some (Some args, c)
      else
        (case literalLength (last args) of
           None \<Rightarrow> Some (Some args, c)
         | Some marker \<Rightarrow>
             if literalDeferred cmd (length args - 1) then Some (Some args, c)
             else
               (case resolve_step env marker c of
                  None \<Rightarrow> None
                | Some (None, c') \<Rightarrow> Some (None, c')
                | Some (Some (body, extra), c') \<Rightarrow>
                    resolveLiteralArgs env cmd (args[length args - 1 := Quote body] @ extra) c')))"
  by pat_completeness auto
termination
  by (relation "measure (\<lambda>(env, cmd, args, c). cost c)") (auto dest: resolve_step_cost)

declare resolveLiteralArgs.simps [simp del]

text \<open>A PUTSCRIPT or CHECKSCRIPT content argument.\<close>

definition readScriptArgument :: "'s env \<Rightarrow> string \<Rightarrow> 's conn \<Rightarrow> (string option \<times> 's conn) option" where
  "readScriptArgument env arg c =
     (case literalLength arg of
        None \<Rightarrow> Some (Some (unquoteString arg), c)
      | Some (nonSync, Inl e) \<Rightarrow>
          let c1 = clientError env ''Invalid literal string length'' c
          in Some (None, if nonSync then c1\<lparr>closePending := True\<rparr> else c1)
      | Some (nonSync, Inr len) \<Rightarrow>
          if 0 < MaxScriptSize (opts env) \<and> MaxScriptSize (opts env) < len then
            (let c1 = quotaMaxSize env len c
             in Some (None, if nonSync \<or> rbuf c1 \<noteq> [] then c1\<lparr>closePending := True\<rparr> else c1))
          else do {
            (err, c1) \<leftarrow> (if nonSync then Some (None, c) else Flush (writeLine ''+'' c));
            if err \<noteq> None then Some (None, c1\<lparr>closePending := True\<rparr>)
            else do {
              (r, c2) \<leftarrow> read_body (CopyN (nat len)) env c1;
              case r of
                Inl e \<Rightarrow> Some (None,
                  (no (dq ''Failed to read literal string content'') (c2\<lparr>lastErr := Some e\<rparr>))
                    \<lparr>closePending := True\<rparr>)
              | Inr (content, rest) \<Rightarrow> Some (Some content, c2\<lparr>cmdStart := now c2\<rparr>)
            }
          })"

section \<open>Script commands\<close>

definition arg_name :: "string \<Rightarrow> string" where
  "arg_name arg = TrimSpace (unquoteString arg)"

text \<open>A call into the session: the call is recorded, the session's state replaced.\<close>

definition session_call :: "scall \<Rightarrow> ('s \<Rightarrow> 'r \<times> 's) \<Rightarrow> 's conn \<Rightarrow> 'r \<times> 's conn" where
  "session_call k f c =
     (case f (session c) of (r, s) \<Rightarrow> (r, log_obs (OScript k) (c\<lparr>session := s\<rparr>)))"

text \<open>The end of the handlers whose session method returns only an error.\<close>

definition finish :: "'s env \<Rightarrow> string \<Rightarrow> goerr option \<times> 's conn \<Rightarrow> 's conn" where
  "finish env okline rc =
     (case rc of (Some e, c) \<Rightarrow> sessionError env e c | (None, c) \<Rightarrow> writeLine okline c)"

definition list_line :: "ScriptInfo \<Rightarrow> string" where
  "list_line s = Quote (SanitizeText (si_Name s)) @ (if si_Active s then '' ACTIVE'' else [])"

definition handleListScripts :: "'s env \<Rightarrow> 's conn \<Rightarrow> 's conn" where
  "handleListScripts env c =
     (case session_call KListScripts (s_ListScripts (ops env)) c of
        (Inl err, c1) \<Rightarrow> sessionError env err c1
      | (Inr scripts, c1) \<Rightarrow> writeLine ''OK'' (writeLines (map list_line scripts) c1))"

definition handleGetScript :: "'s env \<Rightarrow> string list \<Rightarrow> 's conn \<Rightarrow> 's conn" where
  "handleGetScript env args c =
     (case args of
        [] \<Rightarrow> clientError env ''Syntax: GETSCRIPT scriptName'' c
      | a # _ \<Rightarrow>
          (case session_call (KGetScript (arg_name a)) (s_GetScript (ops env) (arg_name a)) c of
             (Inl err, c1) \<Rightarrow> sessionError env err c1
           | (Inr script, c1) \<Rightarrow>
               let c2 = WriteString (''{'' @ dec_nat (length script) @ ''}'' @ CRLF) c1;
                   c3 = WriteString script c2;
                   c4 = WriteString CRLF c3
               in writeLine ''OK'' c4))"

definition tooBig :: "'s env \<Rightarrow> int \<Rightarrow> bool" where
  "tooBig env n \<longleftrightarrow> 0 < MaxScriptSize (opts env) \<and> MaxScriptSize (opts env) < n"

definition call_PutScript :: "'s env \<Rightarrow> string \<Rightarrow> string \<Rightarrow> 's conn
    \<Rightarrow> (goerr + bool \<times> string) \<times> 's conn" where
  "call_PutScript env name content c =
     (case s_PutScriptWarnings (ops env) of
        Some put \<Rightarrow> session_call (KPutScriptWarnings name content) (put name content) c
      | None \<Rightarrow>
          (case session_call (KPutScript name content) (s_PutScript (ops env) name content) c of
             (Inl e, c1) \<Rightarrow> (Inl e, c1)
           | (Inr updated, c1) \<Rightarrow> (Inr (updated, []), c1)))"

definition warnings_line :: "string \<Rightarrow> string" where
  "warnings_line w = ''OK (WARNINGS) '' @ Quote (SanitizeText w)"

definition handlePutScript :: "'s env \<Rightarrow> string list \<Rightarrow> 's conn \<Rightarrow> 's conn option" where
  "handlePutScript env args c =
     (case args of
        a0 # a1 # _ \<Rightarrow> do {
          (content, c1) \<leftarrow> readScriptArgument env a1 c;
          case content of
            None \<Rightarrow> Some c1
          | Some body \<Rightarrow>
              (let name = arg_name a0 in
               case ValidateScriptName name of
                 Some e \<Rightarrow> Some (clientError env e (c1\<lparr>lastErr := Some (PlainErr e)\<rparr>))
               | None \<Rightarrow>
                   if tooBig env (int (length body)) then Some (quotaMaxSize env (int (length body)) c1)
                   else (case call_PutScript env name body c1 of
                       (Inl err, c2) \<Rightarrow> Some (sessionError env err c2)
                     | (Inr (updated, warnings), c2) \<Rightarrow>
                         Some (if warnings \<noteq> [] then writeLine (warnings_line warnings) c2
                               else if updated then writeLine (''OK '' @ dq ''Script updated'') c2
                               else writeLine (''OK '' @ dq ''Script stored'') c2)))
        }
      | _ \<Rightarrow> Some (clientError env ''Syntax: PUTSCRIPT scriptName scriptContent'' c))"

definition handleCheckScript :: "'s env \<Rightarrow> string list \<Rightarrow> 's conn \<Rightarrow> 's conn option" where
  "handleCheckScript env args c =
     (case args of
        [] \<Rightarrow> Some (clientError env ''Syntax: CHECKSCRIPT scriptContent'' c)
      | a # _ \<Rightarrow> do {
          (content, c1) \<leftarrow> readScriptArgument env a c;
          case content of
            None \<Rightarrow> Some c1
          | Some body \<Rightarrow>
              if tooBig env (int (length body)) then Some (quotaMaxSize env (int (length body)) c1)
              else (case session_call (KCheckScript body) (s_CheckScript (ops env) body) c1 of
                  (Inl err, c2) \<Rightarrow> Some (sessionError env err c2)
                | (Inr warnings, c2) \<Rightarrow>
                    Some (if warnings \<noteq> [] then writeLine (warnings_line warnings) c2
                          else writeLine ''OK'' c2))
        })"

definition handleHaveSpace :: "'s env \<Rightarrow> string list \<Rightarrow> 's conn \<Rightarrow> 's conn" where
  "handleHaveSpace env args c =
     (case args of
        a0 # a1 # _ \<Rightarrow>
          (case parseInt64 a1 of
             Inl e \<Rightarrow> clientError env ''Invalid script size'' c
           | Inr n \<Rightarrow>
               if tooBig env n then quotaMaxSize env n c
               else finish env ''OK''
                 (session_call (KHaveSpace (arg_name a0) n) (s_HaveSpace (ops env) (arg_name a0) n) c))
      | _ \<Rightarrow> clientError env ''Syntax: HAVESPACE scriptName scriptSize'' c)"

definition handleRenameScript :: "'s env \<Rightarrow> string list \<Rightarrow> 's conn \<Rightarrow> 's conn" where
  "handleRenameScript env args c =
     (case args of
        a0 # a1 # _ \<Rightarrow>
          (let oldName = arg_name a0; newName = arg_name a1 in
           if oldName = [] then clientError env ''Script name cannot be empty'' c
           else (case ValidateScriptName newName of
               Some e \<Rightarrow> clientError env e (c\<lparr>lastErr := Some (PlainErr e)\<rparr>)
             | None \<Rightarrow> finish env ''OK''
                 (session_call (KRenameScript oldName newName)
                   (s_RenameScript (ops env) oldName newName) c)))
      | _ \<Rightarrow> clientError env ''Syntax: RENAMESCRIPT oldName newName'' c)"

definition handleSetActive :: "'s env \<Rightarrow> string list \<Rightarrow> 's conn \<Rightarrow> 's conn" where
  "handleSetActive env args c =
     (case args of
        [] \<Rightarrow> clientError env ''Syntax: SETACTIVE scriptName'' c
      | a # _ \<Rightarrow> finish env ''OK''
          (session_call (KSetActive (arg_name a)) (s_SetActive (ops env) (arg_name a)) c))"

definition handleDeleteScript :: "'s env \<Rightarrow> string list \<Rightarrow> 's conn \<Rightarrow> 's conn" where
  "handleDeleteScript env args c =
     (case args of
        [] \<Rightarrow> clientError env ''Syntax: DELETESCRIPT scriptName'' c
      | a # _ \<Rightarrow> finish env (''OK '' @ dq ''Script deleted'')
          (session_call (KDeleteScript (arg_name a)) (s_DeleteScript (ops env) (arg_name a)) c))"

end
