(* ===== verification/ConnStep.thy ===== *)
theory ConnStep
  imports Protocol ConnScript
begin

text \<open>
  One relation that every handler satisfies: what a command may change of a connection. Time does not
  go back, the script is not read backwards, at most so many errors are counted, the flags only rise,
  the deadlines of the session stay, and the calls that were recorded are steps of the abstract state
  machine of \<open>Protocol\<close>. The relation composes, so each handler's proof follows its code.
\<close>

section \<open>The relation\<close>

text \<open>The phase a connection is in. A session that hijacked the connection and reported success is
  beyond the first phase although the library's own flag stays down.\<close>

definition tracks :: "phase \<Rightarrow> 's conn \<Rightarrow> bool" where
  "tracks p c \<longleftrightarrow> p = (if authenticated c then Authenticated else NonAuthenticated)
     \<or> hijacked c \<and> p = Authenticated"

definition logs :: "'s conn \<Rightarrow> 's conn \<Rightarrow> bool" where
  "logs c c' \<longleftrightarrow> (\<exists>es. trace c' = trace c @ es
     \<and> (\<forall>p. tracks p c \<longrightarrow> (\<exists>q. rfc_run p es q \<and> tracks q c')))"

definition hstep :: "'s env \<Rightarrow> nat \<Rightarrow> 's conn \<Rightarrow> 's conn \<Rightarrow> bool" where
  "hstep env k c c' \<longleftrightarrow> startTime c' = startTime c \<and> ctxDeadline c' = ctxDeadline c
     \<and> wtimeout c' = wtimeout c \<and> now c \<le> now c' \<and> cost c' \<le> cost c
     \<and> errorCount c \<le> errorCount c' \<and> errorCount c' \<le> errorCount c + int k
     \<and> (cancelled c \<longrightarrow> cancelled c') \<and> (authenticated c \<longrightarrow> authenticated c')
     \<and> (hijacked c \<longrightarrow> hijacked c') \<and> (closePending c \<longrightarrow> closePending c')
     \<and> ((hijacked c \<longrightarrow> \<not> registered c) \<longrightarrow> (hijacked c' \<longrightarrow> \<not> registered c'))
     \<and> (guarded env \<longrightarrow> armed c \<longrightarrow> armed c') \<and> logs c c'
     \<and> (tlsPending c' \<longrightarrow> tlsPending c) \<and> (timed env c \<longrightarrow> timed env c')"

lemma logs_refl: "trace c' = trace c \<Longrightarrow> authenticated c' = authenticated c \<Longrightarrow>
    (hijacked c \<longrightarrow> hijacked c') \<Longrightarrow> logs c c'"
  by (auto simp: logs_def tracks_def)

lemma logs_trans: "logs a b \<Longrightarrow> logs b c \<Longrightarrow> logs a c"
  unfolding logs_def by (metis append_assoc rfc_run_append)

lemma hstepD:
  assumes "hstep env k c c'"
  shows "startTime c' = startTime c" "ctxDeadline c' = ctxDeadline c" "wtimeout c' = wtimeout c"
    "now c \<le> now c'" "cost c' \<le> cost c" "errorCount c \<le> errorCount c'"
    "errorCount c' \<le> errorCount c + int k" "cancelled c \<Longrightarrow> cancelled c'"
    "authenticated c \<Longrightarrow> authenticated c'" "hijacked c \<Longrightarrow> hijacked c'"
    "closePending c \<Longrightarrow> closePending c'"
    "(hijacked c \<longrightarrow> \<not> registered c) \<Longrightarrow> (hijacked c' \<longrightarrow> \<not> registered c')"
    "guarded env \<Longrightarrow> armed c \<Longrightarrow> armed c'" "logs c c'"
    "tlsPending c' \<Longrightarrow> tlsPending c" "timed env c \<Longrightarrow> timed env c'"
  using assms unfolding hstep_def by blast+

lemma hstep_trans:
  assumes "hstep env k a b" "hstep env m b c"
  shows "hstep env (k + m) a c"
proof -
  note x = hstepD [OF assms(1)] and y = hstepD [OF assms(2)]
  have "errorCount c \<le> errorCount a + int (k + m)" using x(7) y(7) by simp
  then show ?thesis
    unfolding hstep_def
    using x(1-3) y(1-3) order_trans [OF x(4) y(4)] order_trans [OF y(5) x(5)]
      order_trans [OF x(6) y(6)] x(8-11) y(8-11) x(12) y(12) x(13) y(13) logs_trans [OF x(14) y(14)]
      x(15,16) y(15,16)
    by (intro conjI impI) simp_all
qed

lemma hstep_mono: "hstep env k a b \<Longrightarrow> k \<le> m \<Longrightarrow> hstep env m a b"
  unfolding hstep_def by (elim conjE, intro conjI) (assumption | simp)+

lemma hstep_trans01: "hstep env 0 a b \<Longrightarrow> hstep env (Suc 0) b c \<Longrightarrow> hstep env (Suc 0) a c"
  using hstep_trans [of env 0 a b "Suc 0" c] by simp

lemma hstep_trans10: "hstep env (Suc 0) a b \<Longrightarrow> hstep env 0 b c \<Longrightarrow> hstep env (Suc 0) a c"
  using hstep_trans [of env "Suc 0" a b 0 c] by simp

lemma hstep_trans00: "hstep env 0 a b \<Longrightarrow> hstep env 0 b c \<Longrightarrow> hstep env 0 a c"
  using hstep_trans [of env 0 a b 0 c] by simp

lemma hstep_01: "hstep env 0 a b \<Longrightarrow> hstep env (Suc 0) a b"
  by (erule hstep_mono) simp

lemma hstep_refl [simp]: "hstep env k c c"
  by (simp add: hstep_def logs_refl)

lemma hstep_responds:
  assumes "responds c c'" shows "hstep env (Suc 0) c c'"
  unfolding hstep_def armed_def using responds_mono [OF assms]
  by (simp add: responds_fields [OF assms] logs_refl timed_responds [OF assms])

lemma hstep_responds0:
  assumes "responds c c'" "errorCount c' = errorCount c" shows "hstep env 0 c c'"
  unfolding hstep_def armed_def using responds_mono [OF assms(1)]
  by (simp add: responds_fields [OF assms(1)] assms(2) logs_refl timed_responds [OF assms(1)])

lemma hstep_io:
  assumes "io_step c c'" "guarded env \<Longrightarrow> armed c \<Longrightarrow> armed c'" "timed env c \<Longrightarrow> timed env c'"
  shows "hstep env 0 c c'"
proof -
  have "cancelled c \<longrightarrow> cancelled c'" "tlsPending c' \<longrightarrow> tlsPending c"
    using assms(1) by (simp_all add: io_step_def)
  with io_step_mono [OF assms(1)] assms(2,3) show ?thesis
    unfolding hstep_def by (simp add: io_step_fields [OF assms(1)] logs_refl)
qed

lemma hstep_set:
  "hstep env 0 c (c\<lparr>lastErr := e\<rparr>)" "hstep env 0 c (c\<lparr>closePending := True\<rparr>)"
  "hstep env 0 c (c\<lparr>cmdStart := t\<rparr>)" "hstep env 0 c (c\<lparr>session := s\<rparr>)"
  "hstep env 0 c (c\<lparr>isTLS := b\<rparr>)"
  by (simp_all add: hstep_def armed_def logs_refl cost_def)

lemma hstep_then:
  "hstep env k c c' \<Longrightarrow> hstep env k c (c'\<lparr>closePending := True\<rparr>)"
  using hstep_trans [OF _ hstep_set(2), of env k c c'] by simp

section \<open>Reads and flushes\<close>

lemma armed_rdl: "rdl c \<noteq> None \<Longrightarrow> armed c"
  by (simp add: armed_def)

lemma hstep_Flush: "Flush c = Some (err, c') \<Longrightarrow> hstep env 0 c c'"
  using Flush_facts [of c err c']
  by (auto intro!: hstep_io io_step_Flush intro: timed_Flush simp: armed_def write_frame_def)

lemma hstep_flush: "flush c = Some (err, c') \<Longrightarrow> hstep env 0 c c'"
  using flush_facts [of c err c']
  by (auto intro!: hstep_io io_step_flush intro: timed_flush simp: armed_def flush_frame_def)

lemma timed_armRead: "timed env c \<Longrightarrow> timed env (armRead env c)"
  by (auto simp: armRead_def timed_setDeadline split: option.splits)

lemma hstep_armRead: "hstep env 0 c (armRead env c)"
  by (rule hstep_io [OF io_step_deadline(3)]) (auto dest: armRead_rdl intro: armed_rdl timed_armRead)

lemma hstep_setDeadline:
  "hstep env 0 c (setReadDeadline d c)" "hstep env 0 c (setDeadline d c)"
  by (rule hstep_io [OF io_step_deadline(1)], simp, erule timed_setDeadline,
      rule hstep_io [OF io_step_deadline(2)], simp, erule timed_setDeadline)

lemma readLine_rdl: "readLine env c = Some (r, c') \<Longrightarrow> rdl c \<noteq> None \<Longrightarrow> rdl c' \<noteq> None"
  unfolding readLine_def readBoundedLine_def by (drule read_line_facts) simp

lemma readLine_time: "readLine env c = Some (r, c') \<Longrightarrow> by_time m c \<Longrightarrow> by_time m c'"
  unfolding readLine_def readBoundedLine_def by (rule read_line_time)

lemma readLine_werr: "readLine env c = Some (r, c') \<Longrightarrow> werr c' = werr c"
  unfolding readLine_def readBoundedLine_def by (drule read_line_facts) (simp add: read_frame_def)

lemma hstep_readLine:
  assumes "readLine env (armRead env c) = Some (r, c')"
  shows "hstep env 0 c c'"
proof (rule hstep_io)
  show "io_step c c'"
    by (rule io_step_trans [OF io_step_deadline(3) io_step_readLine [OF assms]])
  show "armed c'" if "guarded env" "armed c"
    using readLine_rdl [OF assms armRead_rdl [OF that]] by (rule armed_rdl)
  show "timed env c'" if "timed env c"
  proof (rule timed_by [OF _ _ _ that])
    show "io_step c c'" by (rule io_step_trans [OF io_step_deadline(3) io_step_readLine [OF assms]])
    show "werr c' = werr c" using readLine_werr [OF assms] by simp
    show "by_time (limit env c) c'" by (rule readLine_time [OF assms timed_arm [OF that]])
  qed
qed

text \<open>The two ways to read a body: what they need of each other's facts.\<close>

definition reader :: "('s conn \<Rightarrow> ((string \<times> goerr option) \<times> 's conn) option) \<Rightarrow> bool" where
  "reader rd \<longleftrightarrow> (\<forall>c x c'. rd c = Some (x, c') \<longrightarrow> io_step c c')
     \<and> (\<forall>c x c'. rd c = Some (x, c') \<longrightarrow> rdl c \<noteq> None \<longrightarrow> rdl c' \<noteq> None)
     \<and> (\<forall>c. rdl c \<noteq> None \<longrightarrow> rd c \<noteq> None)
     \<and> (\<forall>c x c'. rd c = Some (x, c') \<longrightarrow> werr c' = werr c \<and> (\<forall>m. by_time m c \<longrightarrow> by_time m c'))"

lemma readerD:
  assumes "reader rd"
  shows "rd c = Some (x, c') \<Longrightarrow> io_step c c'"
    "rd c = Some (x, c') \<Longrightarrow> rdl c \<noteq> None \<Longrightarrow> rdl c' \<noteq> None"
    "rdl c \<noteq> None \<Longrightarrow> rd c \<noteq> None"
    "rd c = Some (x, c') \<Longrightarrow> werr c' = werr c"
    "rd c = Some (x, c') \<Longrightarrow> by_time m c \<Longrightarrow> by_time m c'"
  using assms unfolding reader_def by blast+

lemma reader_CopyN: "reader (CopyN n)"
proof -
  have "rdl c' \<noteq> None" if "CopyN n c = Some (x, c')" "rdl c \<noteq> None" for c x and c' :: "'s conn"
    using that read_n_facts [of n c "fst x" "snd x" c'] by (simp add: CopyN_def read_ok_def)
  moreover have "CopyN n c \<noteq> None" if "rdl c \<noteq> None" for c :: "'s conn"
    using read_n_deadline [OF that] by (simp add: CopyN_def)
  moreover have "werr c' = werr c \<and> (\<forall>m. by_time m c \<longrightarrow> by_time m c')"
    if "CopyN n c = Some (x, c')" for c x and c' :: "'s conn"
    using that read_n_facts [of n c "fst x" "snd x" c'] read_n_time [of n c "fst x" "snd x" c']
    by (simp add: CopyN_def read_ok_def read_frame_def)
  ultimately show ?thesis unfolding reader_def using io_step_CopyN by blast
qed

lemma ReadFull_CopyN:
  "ReadFull n c = Some (x, c') \<Longrightarrow> \<exists>y. CopyN n c = Some (y, c')"
  "ReadFull n c = None \<longleftrightarrow> CopyN n c = None"
  by (auto simp: ReadFull_def CopyN_def)

lemma reader_ReadFull: "reader (ReadFull n)"
  unfolding reader_def
proof (intro conjI allI impI)
  fix c c' :: "'s conn" and x
  assume "ReadFull n c = Some (x, c')"
  then obtain y where y: "CopyN n c = Some (y, c')" using ReadFull_CopyN(1) by blast
  show "io_step c c'" by (rule io_step_CopyN [OF y])
  show "rdl c' \<noteq> None" if "rdl c \<noteq> None" by (rule readerD(2) [OF reader_CopyN y that])
  show "werr c' = werr c" by (rule readerD(4) [OF reader_CopyN y])
  show "by_time m c'" if "by_time m c" for m by (rule readerD(5) [OF reader_CopyN y that])
next
  fix c :: "'s conn" assume "rdl c \<noteq> None"
  from readerD(3) [OF reader_CopyN this] show "ReadFull n c \<noteq> None" by (simp add: ReadFull_CopyN(2))
qed

lemma read_body_time:
  assumes rd: "reader rd" and b: "read_body rd env c = Some (r, c')" and t: "timed env c"
  shows "werr c' = werr c \<and> timed env c'"
proof -
  note a = timed_arm [OF t]
  from b show ?thesis
  proof (cases rule: read_body_cases)
    case body
    note x = readerD(4) [OF rd body(1)] readerD(5) [OF rd body(1) a]
    from timed_by [OF io_step_trans [OF io_step_deadline(3) readerD(1) [OF rd body(1)]] _ x(2) t] x(1)
    show ?thesis by (simp add: body timed_setDeadline)
  next
    case (line e data c1 c2)
    note i = io_step_trans [OF io_step_deadline(3) io_step_trans [OF readerD(1) [OF rd line(1)] io_step_readLine [OF line(2)]]]
    have w: "werr c2 = werr c" using readerD(4) [OF rd line(1)] readLine_werr [OF line(2)] by simp
    note m = readLine_time [OF line(2) readerD(5) [OF rd line(1) a]]
    from timed_by [OF i w m t] w show ?thesis by (simp add: line timed_setDeadline)
  next
    case (complete data rest c1 c2)
    note i = io_step_trans [OF io_step_deadline(3) io_step_trans [OF readerD(1) [OF rd complete(1)] io_step_readLine [OF complete(2)]]]
    have w: "werr c2 = werr c" using readerD(4) [OF rd complete(1)] readLine_werr [OF complete(2)] by simp
    note m = readLine_time [OF complete(2) readerD(5) [OF rd complete(1) a]]
    from timed_by [OF i w m t] w show ?thesis by (simp add: complete timed_setDeadline)
  qed
qed

lemma hstep_read_body:
  assumes rd: "reader rd" and b: "read_body rd env c = Some (r, c')"
  shows "hstep env 0 c c'"
proof (rule hstep_io)
  show "io_step c c'"
    by (rule io_step_read_body [OF _ b]) (rule readerD(1) [OF rd])
  show "armed c'" if "guarded env" "armed c"
  proof -
    note a = armRead_rdl [OF that]
    from b show ?thesis
    proof (cases rule: read_body_cases)
      case body
      from readerD(2) [OF rd body(1) a] show ?thesis by (simp add: body armed_rdl)
    next
      case (line e data c1 c2)
      from readLine_rdl [OF line(2) readerD(2) [OF rd line(1) a]] show ?thesis
        by (simp add: line armed_rdl)
    next
      case (complete data rest c1 c2)
      from readLine_rdl [OF complete(2) readerD(2) [OF rd complete(1) a]] show ?thesis
        by (simp add: complete armed_rdl)
    qed
  qed
  show "timed env c'" if "timed env c" using read_body_time [OF rd b that] by simp
qed

section \<open>Calls into the application\<close>

lemma Hijack_cases:
  assumes "Hijack c = Some (err, c')"
  obtains (refused) e where "err = Some e" "c' = c"
  | (failed) e where "err = Some e" "\<not> authenticated c" "\<not> hijacked c" "flush c = Some (err, c')"
  | (taken) c1 where "err = None" "\<not> authenticated c" "\<not> hijacked c" "flush c = Some (None, c1)"
      "c' = (setDeadline None c1)\<lparr>hijacked := True, registered := False\<rparr>"
  using assms by (auto simp: Hijack_def bind_Some_iff split: if_splits option.splits)

lemma hstep_Hijack:
  assumes "Hijack c = Some (err, c')"
  shows "hstep env 0 c c' \<and> trace c' = trace c \<and> authenticated c' = authenticated c"
  using assms
proof (cases rule: Hijack_cases)
  case failed
  then show ?thesis using hstep_flush io_step_fields(2,12) [OF io_step_flush] by blast
next
  case (taken c1)
  let ?d = "setDeadline None c1"
  have "hstep env 0 c ?d" by (rule hstep_trans00 [OF hstep_flush hstep_setDeadline(2)]) (rule taken)
  moreover have "hstep env 0 ?d (?d\<lparr>hijacked := True, registered := False\<rparr>)"
    by (simp add: hstep_def armed_def logs_refl cost_def)
  ultimately have "hstep env 0 c c'" unfolding taken by (rule hstep_trans00)
  with io_step_fields [OF io_step_flush [OF taken(4)]] show ?thesis by (simp add: taken)
qed simp

lemma hstep_callback:
  "run_callback cb c = Some (r, c') \<Longrightarrow>
     hstep env 0 c c' \<and> trace c' = trace c \<and> authenticated c' = authenticated c"
proof (induction cb arbitrary: c)
  case (CHijack k)
  then obtain err c1 where h: "Hijack c = Some (err, c1)"
    and r: "run_callback (k (err = None)) c1 = Some (r, c')"
    by (auto split: option.splits prod.splits)
  from hstep_Hijack [OF h] CHijack.IH [OF rangeI r] show ?case using hstep_trans00 by fastforce
next
  case (COK m k)
  have "hstep env 0 c (ok m c)" by (rule hstep_responds0 [OF responds_ok]) simp
  with COK.IH [of "ok m c"] COK.prems show ?case using hstep_trans00 by fastforce
next
  case (CNo m k)
  have "hstep env 0 c (no m c)" by (rule hstep_responds0 [OF responds_no]) simp
  with CNo.IH [of "no m c"] CNo.prems show ?case using hstep_trans00 by fastforce
next
  case (CIsTLS k)
  from CIsTLS.IH [OF rangeI] CIsTLS.prems show ?case by simp
next
  case (CSetTLS v k)
  from CSetTLS.IH [of "c\<lparr>isTLS := v\<rparr>"] CSetTLS.prems show ?case
    using hstep_trans00 [OF hstep_set(5)] by fastforce
qed simp

text \<open>An authentication attempt and its outcome.\<close>

lemma hstep_attempt:
  assumes "hstep env 0 c c1" "trace c1 = trace c" "\<not> authenticated c" "\<not> authenticated c1" "\<not> hijacked c"
    and "rfc_step NonAuthenticated ev (if b then Authenticated else NonAuthenticated)"
  shows "hstep env 0 c (log_obs ev (c1\<lparr>session := s, authenticated := b \<and> \<not> hijacked c1\<rparr>))"
    (is "hstep env 0 c ?c'")
proof -
  have "logs c ?c'" unfolding logs_def
  proof (intro exI [of _ "[ev]"] conjI allI impI)
    show "trace ?c' = trace c @ [ev]" using assms(2) by simp
    fix p assume "tracks p c"
    with assms(3,5) have "p = NonAuthenticated" by (simp add: tracks_def)
    with assms(6) show "\<exists>q. rfc_run p [ev] q \<and> tracks q ?c'"
      by (intro exI [of _ "if b then Authenticated else NonAuthenticated"])
         (auto simp: rfc_run_one tracks_def)
  qed
  with hstepD(1-13,15,16) [OF assms(1)] assms(3) show ?thesis
    unfolding hstep_def armed_def by (simp add: cost_def)
qed

lemma record_unauth: "\<not> authenticated c \<Longrightarrow> c\<lparr>authenticated := False\<rparr> = c"
  by (cases c) simp

lemma hstep_auth_result:
  assumes cb: "run_callback cb c = Some ((err, s), c1)" and na: "\<not> authenticated c" "\<not> hijacked c"
    and ev: "rfc_step NonAuthenticated ev (if err = None then Authenticated else NonAuthenticated)"
  shows "hstep env (Suc 0) c (auth_result env err (log_obs ev (c1\<lparr>session := s\<rparr>)))"
proof -
  note cbf = hstep_callback [OF cb, of env]
  let ?c2 = "log_obs ev (c1\<lparr>session := s, authenticated := err = None \<and> \<not> hijacked c1\<rparr>)"
  have 1: "hstep env 0 c ?c2"
    using cbf na ev by (intro hstep_attempt) simp_all
  have u: "\<not> authenticated (c1\<lparr>session := s\<rparr>)" using cbf na by simp
  show ?thesis
  proof (cases "err = None \<and> \<not> hijacked c1")
    case True
    then have "auth_result env err (log_obs ev (c1\<lparr>session := s\<rparr>))
        = writeLine (''OK '' @ dq ''Authenticated'') ?c2"
      by (cases c1) (simp add: auth_result_def log_obs_def)
    with hstep_trans01 [OF 1 hstep_responds [OF responds_writeLine]] show ?thesis by simp
  next
    case False
    then have "(err = None \<and> \<not> hijacked c1) = False" by blast
    then have c2: "?c2 = log_obs ev (c1\<lparr>session := s\<rparr>)" using record_unauth [OF u] by (simp only:)
    show ?thesis
    proof (cases err)
      case None
      with False have "auth_result env err (log_obs ev (c1\<lparr>session := s\<rparr>)) = log_obs ev (c1\<lparr>session := s\<rparr>)"
        by (simp add: auth_result_def)
      with hstep_01 [OF 1] c2 show ?thesis by simp
    next
      case (Some e)
      with hstep_trans01 [OF 1 hstep_responds [OF responds_authFailure]] c2 show ?thesis
        by (simp add: auth_result_def)
    qed
  qed
qed

section \<open>Preparing a command\<close>

text \<open>A step that reads what a command needs: with no result, a response has been written.\<close>

definition prep :: "'s env \<Rightarrow> 'x option \<Rightarrow> 's conn \<Rightarrow> 's conn \<Rightarrow> bool" where
  "prep env r c c' \<longleftrightarrow> hstep env (if r = None then Suc 0 else 0) c c' \<and> hijacked c' = hijacked c
     \<and> authenticated c' = authenticated c \<and> trace c' = trace c \<and> isTLS c' = isTLS c
     \<and> session c' = session c"

lemma prep_responds: "responds c c' \<Longrightarrow> prep env None c c'"
  unfolding prep_def using hstep_responds by (auto simp: responds_fields)

lemma prep_io:
  assumes "hstep env 0 c c1" "io_step c c1" "prep env r c1 c'" shows "prep env r c c'"
  using assms(3) unfolding prep_def
  using hstep_trans [OF assms(1)] by (auto simp: io_step_fields [OF assms(2)])

lemma prep_refl [simp]: "prep env (Some x) c c"
  by (simp add: prep_def)

lemma prep_Some: "hstep env 0 c c' \<Longrightarrow> io_step c c' \<Longrightarrow> prep env (Some x) c c'"
  by (rule prep_io [OF _ _ prep_refl])

lemma hstep_set_io:
  "io_step c (c\<lparr>rbuf := b\<rparr>) \<longleftrightarrow> length b \<le> length (rbuf c)"
  by (auto simp: io_step_def cost_def)

lemma prep_readAuthLiteral:
  assumes "readAuthLiteral env n c = Some (r, c')" shows "prep env r c c'"
proof -
  obtain x c1 where b: "read_body (ReadFull (nat n)) env c = Some (x, c1)"
    using assms by (auto simp: readAuthLiteral_def bind_Some_iff)
  have io: "io_step c c1" by (rule io_step_read_body [OF _ b]) (rule io_step_ReadFull)
  note h = hstep_read_body [OF reader_ReadFull b]
  show ?thesis
  proof (cases x)
    case (Inl e)
    with assms b show ?thesis
      by (auto simp: readAuthLiteral_def intro!: prep_io [OF h io prep_responds [OF responds_no_close]])
  next
    case (Inr y)
    with assms b prep_Some [OF h io] show ?thesis
      by (auto simp: readAuthLiteral_def split: prod.splits)
  qed
qed

lemma responds_clientError_close: "responds c ((clientError env m c)\<lparr>closePending := True\<rparr>)"
  by (rule responds_trans [OF responds_clientError responds_closePending]) simp

lemma prep_auth_initial:
  assumes "auth_initial env arg c = Some (r, c')" shows "prep env r c c'"
  using assms
  by (auto simp: auth_initial_def auth_literal_def intro: prep_readAuthLiteral prep_responds
      responds_clientError_close split: option.splits sum.splits if_splits)

lemma prep_auth_continuation:
  assumes "auth_continuation env c = Some (r, c')" shows "prep env r c c'"
proof -
  let ?w = "writeLine (dq []) c"
  obtain err c1 where f: "Flush ?w = Some (err, c1)"
    using assms by (auto simp: auth_continuation_def bind_Some_iff)
  have p0: "prep env q c d" if "prep env q c1 d" for q :: "string option" and d
  proof -
    have "prep env q ?w d" by (rule prep_io [OF hstep_Flush io_step_Flush that]) (rule f)+
    moreover have "hstep env 0 c ?w" by (rule hstep_responds0 [OF responds_writeLine]) simp
    ultimately show ?thesis unfolding prep_def by (auto intro: hstep_trans00 hstep_trans01)
  qed
  show ?thesis
  proof (cases "err = None")
    case False
    with assms f have "r = None" "c' = c1\<lparr>closePending := True\<rparr>"
      by (auto simp: auth_continuation_def)
    with p0 prep_responds [OF responds_closePending] show ?thesis by blast
  next
    case True
    obtain x c2 where l: "readLine env (armRead env c1) = Some (x, c2)"
      using assms f True by (auto simp: auth_continuation_def bind_Some_iff)
    let ?c3 = "setReadDeadline None c2"
    have h: "hstep env 0 c1 ?c3"
      by (rule hstep_trans00 [OF hstep_readLine [OF l] hstep_setDeadline(1)])
    have io: "io_step c1 ?c3"
      using io_step_trans [OF io_step_deadline(3) io_step_trans [OF io_step_readLine [OF l]
          io_step_deadline(1)]] .
    show ?thesis
    proof (cases x)
      case (Inl e)
      with assms f l True show ?thesis
        by (auto simp: auth_continuation_def Let_def
            intro!: p0 prep_io [OF h io prep_responds [OF responds_no_close]])
    next
      case (Inr y)
      with assms f l True show ?thesis
        by (auto simp: auth_continuation_def Let_def split: if_splits
            intro!: p0 intro: prep_io [OF h io prep_responds [OF responds_no_err]]
              prep_io [OF h io prep_auth_initial])
    qed
  qed
qed

section \<open>Handlers\<close>

lemma hstep_call_plain:
  assumes "call_AuthenticatePlain env z u p c = Some (err, c1)" "\<not> authenticated c" "\<not> hijacked c"
  shows "hstep env (Suc 0) c (auth_result env err c1)"
  using assms hstep_auth_result [OF _ assms(2,3) rfc_step.plain [of z u p "err = None"]]
  by (auto simp: call_AuthenticatePlain_def bind_Some_iff)

lemma hstep_call_login:
  assumes "call_Login env login u p c = Some (err, c1)" "\<not> authenticated c" "\<not> hijacked c"
  shows "hstep env (Suc 0) c (auth_result env err c1)"
  using assms hstep_auth_result [OF _ assms(2,3) rfc_step.login [of u p "err = None"]]
  by (auto simp: call_Login_def bind_Some_iff)

lemma responds_clientError_err: "responds c (clientError env m (c\<lparr>lastErr := e\<rparr>))"
  by (rule responds_trans [OF responds_lastErr responds_clientError]) simp

lemma hstep_auth_finish:
  assumes "auth_finish env d c = Some c'" "\<not> authenticated c" "\<not> hijacked c"
  shows "hstep env (Suc 0) c c'"
  using assms
  by (auto simp: auth_finish_def bind_Some_iff intro: hstep_call_plain hstep_responds responds_clientError_err
      responds_clientError responds_authFailure
      split: option.splits list.splits if_splits)

lemma hstep_authenticate:
  assumes "handleAuthenticate env args c = Some c'" "\<not> hijacked c"
  shows "hstep env (Suc 0) c c'"
proof (cases "authenticated c \<or> args = [] \<or> \<not> authAllowed env c
    \<or> ToUpper (up env) (unquoteString (hd args)) \<noteq> ''PLAIN''")
  case True
  with assms show ?thesis
    by (auto simp: handleAuthenticate_def intro!: hstep_responds responds_clientError
        split: list.splits if_splits)
next
  case False
  then obtain mech rest where a: "args = mech # rest" by (cases args) auto
  from False a assms(1) obtain d c1 where
    p: "(case rest of arg # _ \<Rightarrow> auth_initial env arg c | [] \<Rightarrow> auth_continuation env c) = Some (d, c1)"
    and r: "(case d of None \<Rightarrow> Some c1 | Some d \<Rightarrow> auth_finish env d c1) = Some c'"
    by (auto simp: handleAuthenticate_def bind_Some_iff)
  have pr: "prep env d c c1"
    using p by (auto intro: prep_auth_initial prep_auth_continuation split: list.splits)
  show ?thesis
  proof (cases d)
    case None
    with pr r show ?thesis by (simp add: prep_def)
  next
    case (Some data)
    with pr r assms(2) False show ?thesis
      by (auto simp: prep_def intro: hstep_trans01 hstep_auth_finish)
  qed
qed

lemma hstep_login:
  assumes "handleLogin env login args c = Some c'" "\<not> hijacked c"
  shows "hstep env (Suc 0) c c'"
  using assms
  by (auto simp: handleLogin_def bind_Some_iff intro: hstep_call_login hstep_responds
      responds_clientError split: list.splits if_splits)

subsection \<open>STARTTLS\<close>

lemma tls_step:
  assumes "tls_evs dl es c = Some (err, c')"
  shows "netio.more c' = netio.more c \<and> now c \<le> now c' \<and> wtimeout c' = wtimeout c
    \<and> (cancelled c \<longrightarrow> cancelled c') \<and> (poisoned c \<longrightarrow> poisoned c') \<and> (armed c \<longrightarrow> armed c') \<and> rbuf c' = rbuf c
    \<and> sent c' = sent c \<and> evs_cost (inp c') \<le> evs_cost es \<and> werr c' = werr c \<and> tlsPending c' = tlsPending c
    \<and> (err = None \<longrightarrow> (\<exists>pre h post. es = pre @ TlsHello h (inp c') # post))"
  using tls_frame [OF assms] tls_success [of dl es c c'] tls_werr [OF assms] assms by (auto simp: armed_def)

lemma hstep_tls:
  assumes k: "HandshakeContext ctx c = Some (err, c')"
    and dl: "timed env c \<Longrightarrow> by_time (limit env c) c"
  shows "hstep env 0 c c'"
proof (rule hstep_io)
  note t = tls_step [OF k [unfolded HandshakeContext_def]]
  then show io: "io_step c c'" by (simp add: io_step_def cost_def)
  show "armed c'" if "armed c" using t that by simp
  show "timed env c'" if tc: "timed env c"
  proof (rule timed_by [OF io _ _ tc])
    obtain d where d: "min_deadline (rdl c) ctx = Some d" "d \<le> limit env c"
      using dl [OF tc] by (cases ctx) (auto simp: by_time_def min_deadline_def min_def split: if_splits)
    show "by_time (limit env c) c'"
      by (rule tls_time [OF k [unfolded HandshakeContext_def] d dl [OF tc]])
  qed (use t in simp)
qed

lemma hstep_upgrade:
  "werr c = None \<Longrightarrow> hstep env 0 c (c\<lparr>rbuf := [], wbuf := [], werr := None, isTLS := True\<rparr>)"
  by (simp add: hstep_def armed_def logs_refl cost_def timed_def late_by_def)

lemma hstep_starttls:
  assumes "handleStartTLS env ctx c = Some (quit, c')"
  shows "hstep env (Suc 0) c c'"
proof (cases "TLSConfig (opts env) \<and> \<not> isTLS c \<and> \<not> authenticated c \<and> rbuf c = []")
  case False
  with assms show ?thesis
    by (auto simp: handleStartTLS_def intro!: hstep_responds responds_clientError responds_no_err
        split: if_splits)
next
  case True
  let ?w = "writeLine (''OK '' @ dq ''Begin TLS negotiation'') c"
  obtain err c1 where f: "Flush ?w = Some (err, c1)"
    using assms True by (auto simp: handleStartTLS_def bind_Some_iff)
  have h1: "hstep env 0 c c1"
    by (rule hstep_trans00 [OF hstep_responds0 [OF responds_writeLine] hstep_Flush [OF f]]) simp
  show ?thesis
  proof (cases "err = None")
    case False
    with assms f True h1 show ?thesis by (auto simp: handleStartTLS_def intro: hstep_01)
  next
    case nerr: True
    define c2 where "c2 = (case nextReadDeadline env c1 of None \<Rightarrow> c1 | Some d \<Rightarrow> setDeadline (Some d) c1)"
    have h2: "hstep env 0 c c2"
      unfolding c2_def by (auto intro: h1 hstep_trans00 [OF h1 hstep_setDeadline(2)] split: option.splits)
    obtain herr c3 where k: "HandshakeContext ctx c2 = Some (herr, c3)"
      using assms f True nerr by (auto simp: handleStartTLS_def bind_Some_iff c2_def Let_def)
    have c2: "limit env c2 = limit env c1" 
      by (cases "nextReadDeadline env c1") (simp_all add: c2_def limit_def late_by_def)
    have dl: "by_time (limit env c2) c2" if "timed env c2"
    proof -
      have "timed env c1" using that by (auto simp: c2_def timed_def late_by_def setDeadline_def split: option.splits if_splits)
      from timed_deadline [OF this] show ?thesis unfolding c2 by (simp add: c2_def)
    qed
    have tls: "hstep env 0 c2 c3" by (rule hstep_tls [OF k]) (rule dl)
    have werr: "werr c3 = None"
      using tls_werr [OF k [unfolded HandshakeContext_def]] Flush_facts [OF f] nerr
      by (simp add: c2_def split: option.splits)
    note h4 = hstep_trans00 [OF hstep_trans00 [OF h2 tls] hstep_setDeadline(2)]
    show ?thesis
    proof (cases herr)
      case None
      let ?u = "(setDeadline None c3)\<lparr>rbuf := [], wbuf := [], werr := None, isTLS := True\<rparr>"
      have "c' = sendGreeting env ?u"
        using assms f True nerr k None by (simp add: handleStartTLS_def Let_def c2_def [symmetric])
      moreover have "hstep env 0 (setDeadline None c3) ?u" by (rule hstep_upgrade) (simp add: werr)
      ultimately show ?thesis
        using hstep_trans01 [OF hstep_trans00 [OF h4] hstep_responds [OF responds_greeting]] by simp
    next
      case (Some e)
      have "c' = setDeadline None c3\<lparr>lastErr := Some e\<rparr>"
        using assms f True nerr k Some by (simp add: handleStartTLS_def Let_def c2_def [symmetric])
      with hstep_01 [OF hstep_trans00 [OF h4 hstep_set(1)]] show ?thesis by simp
    qed
  qed
qed

section \<open>Literal arguments\<close>

lemma prep_continuation:
  assumes "(if nonSync then Some (None, c) else Flush (writeLine ''+'' c)) = Some (err, c1)"
    and "prep env r c1 c'"
  shows "prep env r c c'"
proof (cases nonSync)
  case False
  let ?w = "writeLine ''+'' c"
  from False assms(1) have f: "Flush ?w = Some (err, c1)" by simp
  have "prep env r ?w c'" by (rule prep_io [OF hstep_Flush io_step_Flush assms(2)]) (rule f)+
  moreover have "hstep env 0 c ?w" by (rule hstep_responds0 [OF responds_writeLine]) simp
  ultimately show ?thesis unfolding prep_def by (auto intro: hstep_trans00 hstep_trans01)
qed (use assms in simp)

lemma prep_body:
  assumes "reader rd" "read_body rd env c = Some (x, c1)" "prep env r c1 c'"
  shows "prep env r c c'"
  by (rule prep_io [OF hstep_read_body io_step_read_body assms(3)])
     (rule assms(1,2) | rule readerD(1) [OF assms(1)], assumption)+

lemma prep_resolve_step:
  assumes "resolve_step env marker c = Some (r, c')" shows "prep env r c c'"
proof -
  obtain ns v where m: "marker = (ns, v)" by (cases marker)
  show ?thesis
  proof (cases "\<exists>len. v = Inr len \<and> len \<le> MaxLineLength (opts env)")
    case False
    with assms m show ?thesis
      by (auto simp: resolve_step_def Let_def intro!: prep_responds responds_clientError
          responds_clientError_close split: sum.splits if_splits)
  next
    case True
    then obtain len where v: "v = Inr len" "len \<le> MaxLineLength (opts env)" by blast
    obtain err c1 where
      f: "(if ns then Some (None, c) else Flush (writeLine ''+'' c)) = Some (err, c1)"
      using assms m v by (auto simp: resolve_step_def bind_Some_iff split: if_splits)
    show ?thesis
    proof (cases "err = None")
      case False
      with assms m v f have "r = None" "c' = c1\<lparr>closePending := True\<rparr>"
        by (auto simp: resolve_step_def bind_Some_iff split: if_splits)
      with prep_continuation [OF f prep_responds [OF responds_closePending]] show ?thesis by simp
    next
      case True
      obtain x c2 where b: "read_body (ReadFull (nat len)) env c1 = Some (x, c2)"
        using assms m v f True by (auto simp: resolve_step_def bind_Some_iff split: if_splits)
      note p0 = prep_continuation [OF f prep_body [OF reader_ReadFull b]]
      show ?thesis
      proof (cases x)
        case (Inl e)
        with assms m v f b True have "r = None"
          "c' = (no (dq ''Failed to read literal argument'') (c2\<lparr>lastErr := Some e\<rparr>))\<lparr>closePending := True\<rparr>"
          by (auto simp: resolve_step_def bind_Some_iff split: if_splits)
        with p0 [OF prep_responds [OF responds_no_close]] show ?thesis by simp
      next
        case (Inr y)
        with assms m v f b True p0 [OF prep_responds [OF responds_clientError_err]] p0 [OF prep_refl]
        show ?thesis
          by (auto simp: resolve_step_def bind_Some_iff split: if_splits sum.splits prod.splits)
      qed
    qed
  qed
qed

lemma prep_trans:
  assumes "prep env (Some x) a b" "prep env r b c" shows "prep env r a c"
  using assms hstep_trans [of env 0 a b _ c] unfolding prep_def by auto

lemma prep_resolve:
  "resolveLiteralArgs env cmd args c = Some (r, c') \<Longrightarrow> prep env r c c'"
proof (induction env cmd args c arbitrary: r c' rule: resolveLiteralArgs.induct)
  case (1 env cmd args c)
  show ?case
  proof (cases "args = [] \<or> literalLength (last args) = None
      \<or> literalDeferred cmd (length args - 1)")
    case True
    with 1(2) show ?thesis
      by (subst (asm) resolveLiteralArgs.simps) (auto split: if_splits option.splits)
  next
    case False
    then obtain marker where m: "literalLength (last args) = Some marker" by auto
    obtain x c1 where s: "resolve_step env marker c = Some (x, c1)"
      using 1(2) False m by (subst (asm) resolveLiteralArgs.simps) (auto split: option.splits)
    note p = prep_resolve_step [OF s]
    show ?thesis
    proof (cases x)
      case None
      with 1(2) False m s p show ?thesis
        by (subst (asm) resolveLiteralArgs.simps) (auto simp: prep_def)
    next
      case (Some y)
      obtain body extra where y: "y = (body, extra)" by (cases y)
      have "resolveLiteralArgs env cmd (args[length args - 1 := Quote body] @ extra) c1 = Some (r, c')"
        using 1(2) False m s Some y by (subst (asm) resolveLiteralArgs.simps) auto
      from 1(1) [OF _ m _ s refl Some y [symmetric] this] False have "prep env r c1 c'" by simp
      with p Some show ?thesis by (auto intro: prep_trans)
    qed
  qed
qed

lemma responds_rejected:
  "responds c ((quotaMaxSize env n c)\<lparr>closePending := True\<rparr>)"
  by (rule responds_trans [OF responds_quotaMaxSize responds_closePending]) simp

lemma prep_readScriptArgument:
  assumes "readScriptArgument env arg c = Some (r, c')" shows "prep env r c c'"
proof (cases "\<exists>ns len. literalLength arg = Some (ns, Inr len)
    \<and> \<not> (0 < MaxScriptSize (opts env) \<and> MaxScriptSize (opts env) < len)")
  case False
  with assms show ?thesis
    by (auto simp: readScriptArgument_def Let_def intro!: prep_responds responds_clientError
        responds_clientError_close responds_rejected responds_quotaMaxSize
        split: option.splits sum.splits if_splits)
next
  case True
  then obtain ns len where m: "literalLength arg = Some (ns, Inr len)"
    and sz: "\<not> (0 < MaxScriptSize (opts env) \<and> MaxScriptSize (opts env) < len)" by blast
  note d = readScriptArgument_def [of env arg c, unfolded m option.case prod.case sum.case if_not_P [OF sz]]
  obtain err c1 where
    f: "(if ns then Some (None, c) else Flush (writeLine ''+'' c)) = Some (err, c1)"
    using assms by (auto simp: d bind_Some_iff split: if_splits)
  show ?thesis
  proof (cases "err = None")
    case False
    with assms f have "r = None" "c' = c1\<lparr>closePending := True\<rparr>"
      by (auto simp: d bind_Some_iff split: if_splits)
    with prep_continuation [OF f prep_responds [OF responds_closePending]] show ?thesis by simp
  next
    case True
    obtain x c2 where b: "read_body (CopyN (nat len)) env c1 = Some (x, c2)"
      using assms f True by (auto simp: d bind_Some_iff split: if_splits)
    note p0 = prep_continuation [OF f prep_body [OF reader_CopyN b]]
    show ?thesis
    proof (cases x)
      case (Inl e)
      with assms f b True have "r = None"
        "c' = (no (dq ''Failed to read literal string content'') (c2\<lparr>lastErr := Some e\<rparr>))
          \<lparr>closePending := True\<rparr>"
        by (auto simp: d bind_Some_iff split: if_splits)
      with p0 [OF prep_responds [OF responds_no_close]] show ?thesis by simp
    next
      case (Inr y)
      have "prep env (Some z) c2 (c2\<lparr>cmdStart := now c2\<rparr>)" for z :: string
        by (simp add: prep_def hstep_set)
      from p0 [OF this] assms f b True Inr show ?thesis
        by (auto simp: d bind_Some_iff split: if_splits prod.splits)
    qed
  qed
qed

section \<open>Script commands\<close>

text \<open>A session call in the authenticated state, and what follows it.\<close>

lemma hstep_session_call:
  assumes "session_call k f c = (r, c1)" "authenticated c"
  shows "hstep env 0 c c1"
proof -
  obtain s where c1: "c1 = log_obs (OScript k) (c\<lparr>session := s\<rparr>)"
    using assms(1) by (auto simp: session_call_def split: prod.splits)
  have "logs c c1" unfolding logs_def
  proof (intro exI [of _ "[OScript k]"] conjI allI impI)
    show "trace c1 = trace c @ [OScript k]" by (simp add: c1)
    fix p assume "tracks p c"
    with assms(2) have "p = Authenticated" by (auto simp: tracks_def)
    with assms(2) show "\<exists>q. rfc_run p [OScript k] q \<and> tracks q c1"
      by (intro exI [of _ Authenticated]) (auto simp: rfc_run_one tracks_def c1 intro: rfc_step.script)
  qed
  then show ?thesis unfolding hstep_def armed_def by (simp add: c1 cost_def)
qed

lemma session_call_fields:
  assumes "session_call k f c = (r, c1)"
  shows "authenticated c1 = authenticated c" "hijacked c1 = hijacked c" "isTLS c1 = isTLS c"
  using assms by (auto simp: session_call_def split: prod.splits)

lemma hstep_called:
  assumes "session_call k f c = (r, c1)" "authenticated c" "responds c1 c'"
  shows "hstep env (Suc 0) c c'"
  by (rule hstep_trans01 [OF hstep_session_call hstep_responds]) (rule assms)+

lemma hstep_finish:
  assumes "authenticated c" shows "hstep env (Suc 0) c (finish env okline (session_call k f c))"
proof (cases "session_call k f c")
  case (Pair r c1)
  then show ?thesis
    by (auto simp: finish_def intro!: hstep_called [OF Pair assms] responds_sessionError
        responds_writeLine split: option.splits)
qed

lemma responds_list: "responds c (writeLine s (writeLines ls c))"
  by (rule responds_trans [OF responds_writeLines responds_writeLine]) simp

lemma responds_literal: "responds c (writeLine l (WriteString s (WriteString t (WriteString u c))))"
  by (rule responds_trans [OF responds_write responds_trans [OF responds_write
      responds_trans [OF responds_write responds_writeLine]]]) simp_all

lemma hstep_list: "authenticated c \<Longrightarrow> hstep env (Suc 0) c (handleListScripts env c)"
  by (auto simp: handleListScripts_def intro!: responds_sessionError responds_list
      intro: hstep_called split: prod.splits sum.splits)

lemma hstep_get: "authenticated c \<Longrightarrow> hstep env (Suc 0) c (handleGetScript env args c)"
  by (auto simp: handleGetScript_def Let_def intro!: responds_sessionError responds_literal
      intro: hstep_called hstep_responds responds_clientError
      split: list.splits prod.splits sum.splits)

lemma hstep_havespace: "authenticated c \<Longrightarrow> hstep env (Suc 0) c (handleHaveSpace env args c)"
  by (auto simp: handleHaveSpace_def intro!: hstep_finish
      intro: hstep_responds responds_clientError responds_quotaMaxSize split: list.splits sum.splits)

lemma hstep_rename: "authenticated c \<Longrightarrow> hstep env (Suc 0) c (handleRenameScript env args c)"
  by (auto simp: handleRenameScript_def Let_def intro!: hstep_finish
      intro: hstep_responds responds_clientError responds_clientError_err
      split: list.splits option.splits)

lemma hstep_setactive: "authenticated c \<Longrightarrow> hstep env (Suc 0) c (handleSetActive env args c)"
  by (auto simp: handleSetActive_def intro!: hstep_finish intro: hstep_responds responds_clientError
      split: list.splits)

lemma hstep_delete: "authenticated c \<Longrightarrow> hstep env (Suc 0) c (handleDeleteScript env args c)"
  by (auto simp: handleDeleteScript_def intro!: hstep_finish intro: hstep_responds responds_clientError
      split: list.splits)

lemma call_PutScript_session:
  assumes "call_PutScript env name content c = (r, c1)"
  shows "\<exists>k (f :: 's \<Rightarrow> (goerr + bool \<times> string) \<times> 's) g (q :: goerr + bool).
    session_call k f c = (r, c1) \<or> session_call k g c = (q, c1)"
  using assms by (auto simp: call_PutScript_def split: option.splits prod.splits sum.splits)

lemma hstep_put_called:
  assumes "call_PutScript env name content c = (r, c1)" "authenticated c" "responds c1 c'"
  shows "hstep env (Suc 0) c c'"
  using call_PutScript_session [OF assms(1)]
  by (elim exE disjE) (rule hstep_called [OF _ assms(2,3)], assumption)+

lemma hstep_put:
  assumes "handlePutScript env args c = Some c'" "authenticated c"
  shows "hstep env (Suc 0) c c'"
proof (cases "\<exists>a0 a1 rest. args = a0 # a1 # rest")
  case False
  with assms show ?thesis
    by (auto simp: handlePutScript_def intro: hstep_responds responds_clientError split: list.splits)
next
  case True
  then obtain a0 a1 rest where a: "args = a0 # a1 # rest" by blast
  obtain r c1 where s: "readScriptArgument env a1 c = Some (r, c1)"
    using assms a by (auto simp: handlePutScript_def bind_Some_iff)
  note p = prep_readScriptArgument [OF s]
  show ?thesis
  proof (cases r)
    case None
    with assms a s p show ?thesis by (simp add: handlePutScript_def prep_def)
  next
    case (Some body)
    from p Some have h: "hstep env 0 c c1" and au: "authenticated c1"
      using assms(2) by (simp_all add: prep_def)
    have "hstep env (Suc 0) c1 c'"
      using assms(1) a s Some au
      by (auto simp: handlePutScript_def Let_def intro: hstep_responds responds_clientError_err
          responds_quotaMaxSize hstep_put_called responds_sessionError responds_writeLine
          split: option.splits if_splits prod.splits sum.splits)
    with h show ?thesis by (rule hstep_trans01)
  qed
qed

lemma hstep_check:
  assumes "handleCheckScript env args c = Some c'" "authenticated c"
  shows "hstep env (Suc 0) c c'"
proof (cases args)
  case Nil
  with assms show ?thesis by (auto simp: handleCheckScript_def intro: hstep_responds responds_clientError)
next
  case (Cons a rest)
  obtain r c1 where s: "readScriptArgument env a c = Some (r, c1)"
    using assms Cons by (auto simp: handleCheckScript_def bind_Some_iff)
  note p = prep_readScriptArgument [OF s]
  show ?thesis
  proof (cases r)
    case None
    with assms Cons s p show ?thesis by (simp add: handleCheckScript_def prep_def)
  next
    case (Some body)
    from p Some have h: "hstep env 0 c c1" and au: "authenticated c1"
      using assms(2) by (simp_all add: prep_def)
    have "hstep env (Suc 0) c1 c'"
      using assms(1) Cons s Some au
      by (auto simp: handleCheckScript_def Let_def intro: hstep_responds responds_quotaMaxSize
          hstep_called responds_sessionError responds_writeLine
          split: option.splits if_splits prod.splits sum.splits)
    with h show ?thesis by (rule hstep_trans01)
  qed
qed

end
