(* ===== verification/ConnLive.thy ===== *)
theory ConnLive
  imports ConnStep
begin

text \<open>
  No handler waits forever: with an idle timeout and a write timeout every read and every flush of a
  handler runs under a deadline, so each of them returns whatever the peer does.
\<close>

section \<open>The reader under a deadline\<close>

lemma drain_returns: "rdl c \<noteq> None \<Longrightarrow> drain c \<noteq> None"
proof (induction c rule: drain.induct)
  case (1 c)
  obtain s err c1 where s: "ReadSlice c = Some ((s, err), c1)"
    using ReadSlice_deadline [OF 1(2)] by auto
  from ReadSlice_rdl [OF s] 1(2) have "rdl c1 \<noteq> None" by blast
  with 1(1) [OF s refl refl] s show ?case
    by (subst drain.simps) simp
qed

lemma read_line_returns: "rdl c \<noteq> None \<Longrightarrow> read_line_loop m l c \<noteq> None"
proof (induction m l c rule: read_line_loop.induct)
  case (1 m l c)
  obtain s err c1 where s: "ReadSlice c = Some ((s, err), c1)"
    using ReadSlice_deadline [OF 1(2)] by auto
  from ReadSlice_rdl [OF s] 1(2) have d: "rdl c1 \<noteq> None" by blast
  show ?case
  proof (cases "m < int (length (l @ s))")
    case True
    with s drain_returns [OF d] show ?thesis
      by (subst read_line_loop.simps) (simp add: Let_def)
  next
    case False
    show ?thesis
    proof (cases "err = Some ErrBufferFull")
      case True
      from 1(1) [OF s refl refl refl False True refl d] s False True show ?thesis
        by (subst read_line_loop.simps) (simp add: Let_def)
    next
      case nf: False
      with s False show ?thesis
        by (subst read_line_loop.simps) (cases err; simp add: Let_def)
    qed
  qed
qed

lemma readLine_returns: "rdl c \<noteq> None \<Longrightarrow> readLine env c \<noteq> None"
  unfolding readLine_def readBoundedLine_def by (rule read_line_returns)

section \<open>Live connections\<close>

definition live :: "'s env \<Rightarrow> 's conn \<Rightarrow> bool" where
  "live env c \<longleftrightarrow> guarded env \<and> armed c \<and> 0 < wtimeout c \<and> \<not> tlsPending c"

lemma live_step: "hstep env k a b \<Longrightarrow> live env a \<Longrightarrow> live env b"
  by (auto simp: live_def dest: hstepD(3,13,15))

lemma live_prep: "prep env r a b \<Longrightarrow> live env a \<Longrightarrow> live env b"
  by (auto simp: prep_def intro: live_step split: if_splits)

lemma live_responds: "responds a b \<Longrightarrow> live env a \<Longrightarrow> live env b"
  by (rule live_step [OF hstep_responds])

lemma Flush_live: "live env c \<Longrightarrow> returns (Flush c)"
  unfolding returns_def by (rule Flush_deadline) (simp add: live_def)

lemma readLine_live: "live env c \<Longrightarrow> returns (readLine env (armRead env c))"
  unfolding returns_def by (rule readLine_returns [OF armRead_rdl]) (simp_all add: live_def)

lemma read_body_live:
  assumes "reader rd" "live env c" shows "returns (read_body rd env c)"
proof -
  have a: "rdl (armRead env c) \<noteq> None" using assms(2) by (intro armRead_rdl) (simp_all add: live_def)
  obtain d e c1 where 1: "rd (armRead env c) = Some ((d, e), c1)"
    using readerD(3) [OF assms(1) a] by auto
  from readerD(2) [OF assms(1) 1 a] have "returns (readLine env c1)"
    unfolding returns_def by (rule readLine_returns)
  with 1 show ?thesis
    by (cases e) (auto simp: read_body_def intro!: returns_bind split: prod.splits)
qed

lemma callback_live: "live env c \<Longrightarrow> returns (run_callback cb c)"
proof (induction cb arbitrary: c)
  case (CHijack k)
  have "returns (Hijack c)"
    using Flush_live [OF CHijack.prems] CHijack.prems
    by (auto simp: Hijack_def flush_plain live_def intro!: returns_bind split: option.splits)
  then obtain err c1 where h: "Hijack c = Some (err, c1)" by (rule returnsE)
  from hstep_Hijack [OF h, of env] CHijack.prems have "live env c1" by (auto intro: live_step)
  with CHijack.IH [OF rangeI] h show ?case by simp
next
  case (COK m k)
  from COK.IH [OF live_responds [OF responds_ok COK.prems]] show ?case by simp
next
  case (CNo m k)
  from CNo.IH [OF live_responds [OF responds_no CNo.prems]] show ?case by simp
next
  case (CIsTLS k)
  from CIsTLS.IH [OF rangeI CIsTLS.prems] show ?case by simp
next
  case (CSetTLS v k)
  from CSetTLS.IH [OF live_step [OF hstep_set(5) CSetTLS.prems]] show ?case by simp
qed simp

section \<open>Handlers\<close>

lemma readAuthLiteral_live: "live env c \<Longrightarrow> returns (readAuthLiteral env n c)"
  unfolding readAuthLiteral_def
  by (intro returns_bind read_body_live reader_ReadFull) (auto split: prod.splits sum.splits)

lemma auth_initial_live: "live env c \<Longrightarrow> returns (auth_initial env arg c)"
  using readAuthLiteral_live [of env c]
  by (simp add: auth_initial_def auth_literal_def split: option.splits sum.splits)

lemma flush_line_live:
  assumes "live env c" "Flush (writeLine l c) = Some (err, c1)" shows "live env c1"
  using live_step [OF hstep_Flush [OF assms(2)] live_responds [OF responds_writeLine assms(1)]] .

lemma flush_bind_live:
  assumes "live env c" "\<And>err c1. live env c1 \<Longrightarrow> returns (f (err, c1))"
  shows "returns (Flush (writeLine l c) \<bind> f)"
proof (rule returns_bind [OF Flush_live [OF live_responds [OF responds_writeLine assms(1)]]])
  fix x assume f: "Flush (writeLine l c) = Some x"
  then show "returns (f x)" using assms(2) [OF flush_line_live [OF assms(1)]] by (cases x) simp
qed

lemma readLine_bind_live:
  assumes "live env c" "\<And>r c2. live env (setReadDeadline None c2) \<Longrightarrow> returns (f (r, c2))"
  shows "returns (readLine env (armRead env c) \<bind> f)"
proof (rule returns_bind [OF readLine_live [OF assms(1)]])
  fix x assume "readLine env (armRead env c) = Some x"
  then obtain r c2 where x: "x = (r, c2)" and l: "readLine env (armRead env c) = Some (r, c2)"
    by (cases x) simp
  show "returns (f x)" unfolding x
    by (rule assms(2), rule live_step [OF hstep_trans00 [OF hstep_readLine [OF l] hstep_setDeadline(1)]
        assms(1)])
qed

lemma auth_continuation_live: "live env c \<Longrightarrow> returns (auth_continuation env c)"
  unfolding auth_continuation_def Let_def
  by (erule flush_bind_live) (auto intro!: readLine_bind_live auth_initial_live split: sum.splits)

lemma call_plain_live: "live env c \<Longrightarrow> returns (call_AuthenticatePlain env z u p c)"
  unfolding call_AuthenticatePlain_def by (rule returns_bind [OF callback_live]) auto

lemma call_login_live: "live env c \<Longrightarrow> returns (call_Login env l u p c)"
  unfolding call_Login_def by (rule returns_bind [OF callback_live]) auto

lemma auth_finish_live: "live env c \<Longrightarrow> returns (auth_finish env d c)"
  by (auto simp: auth_finish_def intro!: returns_bind call_plain_live
      split: option.splits list.splits prod.splits)

lemma auth_initial_finish:
  "auth_initial env arg c = Some (Some d, c1) \<Longrightarrow> live env c \<Longrightarrow> returns (auth_finish env d c1)"
  "auth_continuation env c = Some (Some d, c1) \<Longrightarrow> live env c \<Longrightarrow> returns (auth_finish env d c1)"
  by (blast intro: auth_finish_live live_prep prep_auth_initial prep_auth_continuation)+

lemma authenticate_live: "live env c \<Longrightarrow> returns (handleAuthenticate env args c)"
  by (auto simp: handleAuthenticate_def intro!: returns_bind auth_initial_live auth_continuation_live
      intro: auth_initial_finish split: list.splits option.splits prod.splits)

lemma login_live: "live env c \<Longrightarrow> returns (handleLogin env l args c)"
  by (auto simp: handleLogin_def intro!: returns_bind call_login_live
      split: list.splits prod.splits)

lemma tls_returns: "dl \<noteq> None \<Longrightarrow> returns (tls_evs dl es c)"
  by (simp add: returns_def tls_deadline)

lemma handshake_live:
  assumes "live env c" "nextReadDeadline env c = Some d"
  shows "returns (HandshakeContext ctx (setDeadline (Some d) c))"
proof -
  have "rdl (setDeadline (Some d) c) \<noteq> None"
    using assms(1) by (auto simp: live_def armed_def setDeadline_def)
  then show ?thesis unfolding HandshakeContext_def
    by (intro tls_returns) (auto simp: min_deadline_def split: option.splits)
qed

lemma handshake_bind_live:
  assumes "live env c" "\<And>r c'. returns (f (r, c'))"
  shows "returns (HandshakeContext ctx (case nextReadDeadline env c of None \<Rightarrow> c
      | Some d \<Rightarrow> setDeadline (Some d) c) \<bind> f)"
proof -
  obtain d where d: "nextReadDeadline env c = Some d"
    using nextReadDeadline_guarded [of env c] assms(1) by (auto simp: live_def)
  show ?thesis unfolding d option.case
    by (rule returns_bind [OF handshake_live [OF assms(1) d]]) (metis assms(2) surj_pair)
qed

lemma starttls_live: "live env c \<Longrightarrow> returns (handleStartTLS env ctx c)"
  by (auto simp: handleStartTLS_def Let_def split del: if_split
      intro!: flush_bind_live handshake_bind_live)

text \<open>The synchronizing form waits for its flush.\<close>

lemma continuation_bind_live:
  assumes "live env c" "\<And>err c1. live env c1 \<Longrightarrow> returns (f (err, c1))"
  shows "returns ((if ns then Some (None, c) else Flush (writeLine l c)) \<bind> f)"
proof (cases ns)
  case False
  have "returns (Flush (writeLine l c) \<bind> f)" by (rule flush_bind_live) (rule assms, assumption?)+
  with False show ?thesis by simp
qed (use assms in simp)

lemma body_bind_live:
  assumes "reader rd" "live env c" "\<And>r c'. returns (f (r, c'))"
  shows "returns (read_body rd env c \<bind> f)"
  by (rule returns_bind [OF read_body_live [OF assms(1,2)]]) (metis assms(3) surj_pair)

lemma resolve_step_live: "live env c \<Longrightarrow> returns (resolve_step env marker c)"
  by (auto simp: resolve_step_def Let_def split del: if_split
      intro!: continuation_bind_live body_bind_live reader_ReadFull)

lemma resolve_live: "live env c \<Longrightarrow> returns (resolveLiteralArgs env cmd args c)"
proof (induction env cmd args c rule: resolveLiteralArgs.induct)
  case (1 env cmd args c)
  show ?case
  proof (cases "args = [] \<or> literalLength (last args) = None
      \<or> literalDeferred cmd (length args - 1)")
    case True
    then show ?thesis by (subst resolveLiteralArgs.simps) (auto split: option.splits)
  next
    case False
    then obtain marker where m: "literalLength (last args) = Some marker" by auto
    obtain x c1 where s: "resolve_step env marker c = Some (x, c1)"
      by (rule returnsE [OF resolve_step_live [OF 1(2)]])
    note l = live_prep [OF prep_resolve_step [OF s] 1(2)]
    show ?thesis
    proof (cases x)
      case None
      with False m s show ?thesis by (subst resolveLiteralArgs.simps) auto
    next
      case (Some y)
      obtain body extra where y: "y = (body, extra)" by (cases y)
      from 1(1) [OF _ m _ s refl Some y [symmetric] l] False m s Some y show ?thesis
        by (subst resolveLiteralArgs.simps) auto
    qed
  qed
qed

lemma readScriptArgument_live: "live env c \<Longrightarrow> returns (readScriptArgument env arg c)"
  by (auto simp: readScriptArgument_def Let_def split del: if_split
      intro!: continuation_bind_live body_bind_live reader_CopyN)

lemma put_live: "live env c \<Longrightarrow> returns (handlePutScript env args c)"
  by (auto simp: handlePutScript_def Let_def intro!: returns_bind
      readScriptArgument_live split: list.splits option.splits sum.splits prod.splits)

lemma check_live: "live env c \<Longrightarrow> returns (handleCheckScript env args c)"
  by (auto simp: handleCheckScript_def Let_def intro!: returns_bind
      readScriptArgument_live split: list.splits option.splits sum.splits prod.splits)

end
