(* ===== verification/Serve.thy ===== *)
theory Serve
  imports ConnLive
begin

text \<open>
  The command loop (\<open>managesieveserver/conn.go\<close>: \<open>dispatch\<close>, \<open>serve\<close>, \<open>shutdownBye\<close>) and the life of
  a connection (\<open>managesieveserver/server.go\<close>: \<open>handleConn\<close>). The loop is total: each command it takes
  shortens the peer's script.
\<close>

section \<open>Dispatch\<close>

definition reject_unknown :: "'s env \<Rightarrow> string \<Rightarrow> 's conn \<Rightarrow> 's conn" where
  "reject_unknown env cmd c =
     clientError env ''Unknown command'' (c\<lparr>lastErr := Some (PlainErr (''unknown command: '' @ cmd))\<rparr>)"

definition dispatchUnknown :: "'s env \<Rightarrow> string \<Rightarrow> string list \<Rightarrow> 's conn \<Rightarrow> (bool \<times> 's conn) option" where
  "dispatchUnknown env cmd args c =
     (case UnknownCommandHandler env of
        None \<Rightarrow> Some (False, reject_unknown env cmd c)
      | Some h \<Rightarrow> do {
          (((handled, closeConn), s), c1) \<leftarrow> run_callback (h cmd args (session c)) c;
          let c2 = log_obs (OUnknown cmd args) (c1\<lparr>session := s\<rparr>);
          if handled then Some (closeConn, c2) else Some (False, reject_unknown env cmd c2)
        })"

definition script_commands :: "string list" where
  "script_commands = [''LISTSCRIPTS'', ''GETSCRIPT'', ''PUTSCRIPT'', ''CHECKSCRIPT'', ''HAVESPACE'',
     ''RENAMESCRIPT'', ''SETACTIVE'', ''DELETESCRIPT'']"

definition dispatch_script :: "'s env \<Rightarrow> string \<Rightarrow> string list \<Rightarrow> 's conn \<Rightarrow> 's conn option" where
  "dispatch_script env cmd args c =
     (if cmd = ''LISTSCRIPTS'' then Some (handleListScripts env c)
      else if cmd = ''GETSCRIPT'' then Some (handleGetScript env args c)
      else if cmd = ''PUTSCRIPT'' then handlePutScript env args c
      else if cmd = ''CHECKSCRIPT'' then handleCheckScript env args c
      else if cmd = ''HAVESPACE'' then Some (handleHaveSpace env args c)
      else if cmd = ''RENAMESCRIPT'' then Some (handleRenameScript env args c)
      else if cmd = ''SETACTIVE'' then Some (handleSetActive env args c)
      else if cmd = ''DELETESCRIPT'' then Some (handleDeleteScript env args c)
      else Some c)"

definition noop_line :: "string list \<Rightarrow> string" where
  "noop_line args =
     (case args of
        [] \<Rightarrow> ''OK''
      | a # _ \<Rightarrow> ''OK (TAG '' @ Quote (SanitizeText (unquoteString a)) @ '') '' @ dq ''Done'')"

definition dispatch :: "'s env \<Rightarrow> int option \<Rightarrow> string \<Rightarrow> string list \<Rightarrow> 's conn \<Rightarrow> (bool \<times> 's conn) option" where
  "dispatch env ctx cmd args c =
     (if cmd = ''CAPABILITY'' then Some (False, writeLine ''OK'' (sendCapabilityBlock env c))
      else if cmd = ''STARTTLS'' then handleStartTLS env ctx c
      else if cmd = ''AUTHENTICATE'' then do {
        c1 \<leftarrow> handleAuthenticate env args c;
        Some (False, c1)
      }
      else if cmd = ''LOGIN'' then
        (case s_Login (ops env) of
           Some login \<Rightarrow> do {
             c1 \<leftarrow> handleLogin env login args c;
             Some (False, c1)
           }
         | None \<Rightarrow> dispatchUnknown env cmd args c)
      else if cmd = ''NOOP'' then Some (False, writeLine (noop_line args) c)
      else if cmd = ''LOGOUT'' then Some (True, writeLine (''OK '' @ dq ''Goodbye'') c)
      else if cmd \<in> set script_commands then
        (if \<not> authenticated c then Some (False, clientError env ''Not authenticated'' c)
         else do {
           c1 \<leftarrow> dispatch_script env cmd args c;
           Some (False, c1)
         })
      else dispatchUnknown env cmd args c)"

section \<open>Farewells\<close>

definition bye :: "string \<Rightarrow> string" where
  "bye msg = ''BYE (TRYLATER) '' @ dq msg"

text \<open>A last line, flushed; whether the flush fails does not matter any more.\<close>

definition farewell :: "string \<Rightarrow> 's conn \<Rightarrow> 's conn option" where
  "farewell line c = map_option snd (Flush (writeLine line c))"

definition report_timeout :: "'s env \<Rightarrow> string \<Rightarrow> 's conn \<Rightarrow> 's conn" where
  "report_timeout env kind c = (if OnTimeout (opts env) then log_obs (OTimeout kind) c else c)"

text \<open>\<open>opts.AbsoluteSessionTimeout > 0 && time.Since(c.startTime) >= opts.AbsoluteSessionTimeout\<close>\<close>

definition absolute_over :: "'s env \<Rightarrow> 's conn \<Rightarrow> bool" where
  "absolute_over env c \<longleftrightarrow> 0 < AbsoluteSessionTimeout (opts env)
     \<and> AbsoluteSessionTimeout (opts env) \<le> now c - startTime c"

definition end_timeout :: "'s env \<Rightarrow> string \<Rightarrow> string \<Rightarrow> 's conn \<Rightarrow> 's conn option" where
  "end_timeout env msg kind c = map_option (report_timeout env kind) (farewell (bye msg) c)"

definition shutdownBye :: "'s env \<Rightarrow> 's conn \<Rightarrow> 's conn option" where
  "shutdownBye env c =
     (if absolute_over env c
      then end_timeout env ''Maximum session duration exceeded, please reconnect'' TimeoutAbsolute c
      else farewell (bye ''Server shutting down, please reconnect'') c)"

definition read_failed :: "'s env \<Rightarrow> goerr \<Rightarrow> 's conn \<Rightarrow> 's conn option" where
  "read_failed env e c =
     (if ctxErr c then shutdownBye env c
      else if isTimeout e then
        (if absolute_over env c
         then end_timeout env ''Maximum session duration exceeded, please reconnect'' TimeoutAbsolute c
         else end_timeout env ''Connection timed out due to inactivity, please reconnect'' TimeoutIdle c)
      else if errors_Is e ErrLineTooLong then farewell (''NO '' @ dq ''Command line too long'') c
      else if errors_Is e ErrMissingCRLF then
        farewell (''NO '' @ dq ''Command line must end with CRLF'') c
      else Some c)"

section \<open>One turn of the loop\<close>

definition cmdCtx :: "'s env \<Rightarrow> 's conn \<Rightarrow> int option" where
  "cmdCtx env c =
     (if 0 < CommandTimeout (opts env)
      then min_deadline (ctxDeadline c) (Some (now c + CommandTimeout (opts env)))
      else ctxDeadline c)"

definition run_command :: "'s env \<Rightarrow> string \<Rightarrow> string list \<Rightarrow> 's conn \<Rightarrow> (bool \<times> 's conn) option" where
  "run_command env cmd args c = do {
     let ctx = cmdCtx env c;
     let c1 = (setDeadline None c)\<lparr>lastErr := None, cmdStart := now c\<rparr>;
     (quit, c2) \<leftarrow> dispatch env ctx cmd args c1;
     Some (quit, if OnCommand (opts env)
       then log_obs (OCommand cmd (now c2 - cmdStart c2) (lastErr c2)) c2 else c2)
   }"

text \<open>A line that was read: \<^const>\<open>None\<close> for the empty lines the loop skips, else whether to quit.\<close>

definition execute :: "'s env \<Rightarrow> string \<Rightarrow> 's conn \<Rightarrow> (bool option \<times> 's conn) option" where
  "execute env line c =
     (let trimmed = TrimSpace line in
      if trimmed = [] then Some (None, c)
      else (case parseLine (up env) trimmed of
          (cmd, Inl perr) \<Rightarrow>
            Some (Some False, clientError env (''Invalid command syntax: '' @ perr)
              (c\<lparr>lastErr := Some (PlainErr perr)\<rparr>))
        | (cmd, Inr args) \<Rightarrow>
            if cmd = [] then Some (None, c)
            else do {
              (resolved, c1) \<leftarrow> resolveLiteralArgs env cmd args c;
              case resolved of
                None \<Rightarrow> Some (Some False, c1)
              | Some args' \<Rightarrow> map_option (\<lambda>(quit, c2). (Some quit, c2)) (run_command env cmd args' c1)
            }))"

definition too_many_errors :: string where
  "too_many_errors = ''BYE '' @ dq ''Too many errors, closing connection''"

text \<open>The end of a turn: closure and MaxErrors, the flush, and whether the loop goes on.\<close>

definition end_turn :: "'s env \<Rightarrow> bool \<Rightarrow> 's conn \<Rightarrow> (bool \<times> 's conn) option" where
  "end_turn env quit c =
     (if hijacked c then Some (False, c)
      else
        let quit1 = (quit \<or> closePending c);
            (quit2, c1) = (if \<not> quit1 \<and> maxErrorsExceeded env c
                           then (True, writeLine too_many_errors c) else (quit1, c))
        in do {
          (err, c2) \<leftarrow> Flush c1;
          Some (err = None \<and> \<not> quit2, c2)
        })"

definition serve_turn :: "'s env \<Rightarrow> 's conn \<Rightarrow> (bool \<times> 's conn) option" where
  "serve_turn env c =
     (if ctxErr c then map_option (\<lambda>c1. (False, c1)) (shutdownBye env c)
      else do {
        (r, c1) \<leftarrow> readLine env (armRead env c);
        case r of
          Inl e \<Rightarrow> map_option (\<lambda>c2. (False, c2)) (read_failed env e c1)
        | Inr line \<Rightarrow> do {
            (quit, c2) \<leftarrow> execute env line c1;
            case quit of
              None \<Rightarrow> Some (True, c2)
            | Some q \<Rightarrow> end_turn env q c2
          }
      })"

section \<open>What a turn may change\<close>

lemma logs_obs:
  assumes "\<And>p. tracks p c \<Longrightarrow> rfc_step p e p"
  shows "logs c (log_obs e c)"
  unfolding logs_def
proof (intro exI [of _ "[e]"] conjI allI impI)
  fix p assume "tracks p c"
  with assms have "rfc_step p e p" "tracks p (log_obs e c)" by (simp_all add: tracks_def)
  then show "\<exists>q. rfc_run p [e] q \<and> tracks q (log_obs e c)" by (auto simp: rfc_run_one)
qed simp

lemma tracks_le: "tracks p c \<Longrightarrow> p \<le> Authenticated"
  by (auto simp: tracks_def phase_order)

lemma hstep_log:
  assumes "\<And>p. tracks p c \<Longrightarrow> rfc_step p e p"
  shows "hstep env 0 c (log_obs e c)"
  using logs_obs [OF assms] unfolding hstep_def armed_def by simp

lemma hstep_unknown:
  assumes "dispatchUnknown env cmd args c = Some (quit, c')"
  shows "hstep env (Suc 0) c c'"
proof (cases "UnknownCommandHandler env")
  case None
  with assms show ?thesis
    by (auto simp: dispatchUnknown_def reject_unknown_def intro: hstep_responds responds_clientError_err)
next
  case (Some h)
  obtain hd cl s c1 where r: "run_callback (h cmd args (session c)) c = Some (((hd, cl), s), c1)"
    using assms Some by (auto simp: dispatchUnknown_def bind_Some_iff)
  let ?c2 = "log_obs (OUnknown cmd args) (c1\<lparr>session := s\<rparr>)"
  have "hstep env 0 c c1" using hstep_callback [OF r, of env] by (rule conjunct1)
  then have "hstep env 0 c (c1\<lparr>session := s\<rparr>)" by (rule hstep_trans00 [OF _ hstep_set(4)])
  moreover have "hstep env 0 (c1\<lparr>session := s\<rparr>) ?c2"
    by (rule hstep_log) (auto intro: rfc_step.unknown tracks_le)
  ultimately have h2: "hstep env 0 c ?c2" by (rule hstep_trans00)
  have "c' = ?c2 \<or> c' = reject_unknown env cmd ?c2"
    using assms Some r by (auto simp: dispatchUnknown_def Let_def split: if_splits)
  then show ?thesis
  proof
    show ?thesis if "c' = ?c2" unfolding that by (rule hstep_01 [OF h2])
    show ?thesis if "c' = reject_unknown env cmd ?c2" unfolding that reject_unknown_def
      by (rule hstep_trans01 [OF h2 hstep_responds [OF responds_clientError_err]])
  qed
qed

lemma hstep_script:
  assumes "dispatch_script env cmd args c = Some c'" "authenticated c"
  shows "hstep env (Suc 0) c c'"
  using assms
  by (auto simp: dispatch_script_def intro: hstep_list hstep_get hstep_put hstep_check hstep_havespace
      hstep_rename hstep_setactive hstep_delete split: if_splits)

lemma responds_capability: "responds c (writeLine s (sendCapabilityBlock env c))"
  by (rule responds_trans [OF responds_capabilities responds_writeLine]) simp

lemma hstep_dispatch:
  assumes "dispatch env ctx cmd args c = Some (quit, c')" "\<not> hijacked c"
  shows "hstep env (Suc 0) c c'"
  using assms
  by (auto simp: dispatch_def bind_Some_iff intro: hstep_responds responds_capability
      responds_writeLine responds_clientError hstep_starttls hstep_authenticate hstep_login
      hstep_unknown hstep_script split: if_splits option.splits)

lemma hstep_command:
  assumes "run_command env cmd args c = Some (quit, c')" "\<not> hijacked c"
  shows "hstep env (Suc 0) c c'"
proof -
  let ?c1 = "(setDeadline None c)\<lparr>lastErr := None, cmdStart := now c\<rparr>"
  obtain q c2 where d: "dispatch env (cmdCtx env c) cmd args ?c1 = Some (q, c2)"
    using assms by (auto simp: run_command_def bind_Some_iff Let_def)
  have "hstep env 0 c ?c1"
    using hstep_trans00 [OF hstep_trans00 [OF hstep_setDeadline(2) hstep_set(1)] hstep_set(3)] by blast
  moreover have "hstep env (Suc 0) ?c1 c2" by (rule hstep_dispatch [OF d]) (simp add: assms)
  ultimately have h: "hstep env (Suc 0) c c2" by (rule hstep_trans01)
  have "hstep env 0 c2 (log_obs (OCommand cmd d e) c2)" for d e
    by (rule hstep_log) (auto intro: rfc_step.command tracks_le)
  with h assms d show ?thesis
    by (auto simp: run_command_def bind_Some_iff Let_def intro: hstep_trans10)
qed

lemma hstep_execute:
  assumes "execute env line c = Some (quit, c')" "\<not> hijacked c"
  shows "hstep env (Suc 0) c c'"
proof (cases "\<exists>cmd args. TrimSpace line \<noteq> [] \<and> parseLine (up env) (TrimSpace line) = (cmd, Inr args)
    \<and> cmd \<noteq> []")
  case False
  with assms show ?thesis
    by (auto simp: execute_def Let_def intro: hstep_responds responds_clientError_err
        split: if_splits sum.splits prod.splits)
next
  case True
  then obtain cmd args where l: "TrimSpace line \<noteq> []" "parseLine (up env) (TrimSpace line) = (cmd, Inr args)"
    "cmd \<noteq> []" by blast
  then obtain r c1 where r: "resolveLiteralArgs env cmd args c = Some (r, c1)"
    using assms by (auto simp: execute_def bind_Some_iff)
  note p = prep_resolve [OF r]
  show ?thesis
  proof (cases r)
    case None
    with p assms l r show ?thesis by (auto simp: execute_def prep_def)
  next
    case (Some args')
    with assms l r obtain q where q: "run_command env cmd args' c1 = Some (q, c')"
      by (auto simp: execute_def)
    from p Some assms(2) have "hstep env 0 c c1" "\<not> hijacked c1" by (simp_all add: prep_def)
    with hstep_command [OF q] show ?thesis by (auto intro: hstep_trans01)
  qed
qed

lemma hstep_end_turn:
  assumes "end_turn env quit c = Some (continue, c')"
  shows "hstep env 0 c c'"
proof -
  have h: "hstep env 0 c c'" if "Flush (writeLine l c) = Some (err, c')" for l err
    by (rule hstep_trans00 [OF hstep_responds0 [OF responds_writeLine] hstep_Flush [OF that]]) simp
  show ?thesis
    using assms by (auto simp: end_turn_def Let_def bind_Some_iff intro: hstep_Flush h split: if_splits)
qed

lemma hstep_turn:
  assumes "serve_turn env c = Some (True, c')" "\<not> hijacked c"
  shows "hstep env (Suc 0) c c'" and "cost c' < cost c" and "\<not> hijacked c'"
proof -
  obtain r c1 where "readLine env (armRead env c) = Some (r, c1)"
    using assms by (auto simp: serve_turn_def bind_Some_iff split: if_splits)
  moreover from this obtain line where "r = Inr line"
    using assms by (cases r) (auto simp: serve_turn_def split: if_splits)
  ultimately have l: "readLine env (armRead env c) = Some (Inr line, c1)" by simp
  from l assms obtain q c2 where e: "execute env line c1 = Some (q, c2)"
    and r: "(case q of None \<Rightarrow> Some (True, c2) | Some b \<Rightarrow> end_turn env b c2) = Some (True, c')"
    by (auto simp: serve_turn_def bind_Some_iff split: if_splits)
  have h1: "hstep env 0 c c1" by (rule hstep_readLine [OF l])
  have n1: "\<not> hijacked c1"
    using io_step_fields(3) [OF io_step_trans [OF io_step_deadline(3) io_step_readLine [OF l]]] assms(2)
    by simp
  have h2: "hstep env (Suc 0) c c2" by (rule hstep_trans01 [OF h1 hstep_execute [OF e n1]])
  show h: "hstep env (Suc 0) c c'"
    using r h2 by (auto intro: hstep_trans10 hstep_end_turn split: option.splits)
  have "cost c1 < cost c" using readLine_cost [OF l] by auto
  moreover have "cost c2 \<le> cost c1" by (rule hstepD(5) [OF hstep_execute [OF e n1]])
  moreover have "cost c' \<le> cost c2"
    using r hstepD(5) [OF hstep_end_turn] by (auto split: option.splits)
  ultimately show "cost c' < cost c" by simp
  show "\<not> hijacked c'"
  proof (cases q)
    case None
    have "q = None \<Longrightarrow> hijacked c2 = hijacked c1"
      using e by (auto simp: execute_def Let_def bind_Some_iff split: if_splits prod.splits sum.splits option.splits)
    with None r n1 show ?thesis by simp
  next
    case (Some b)
    with r have "end_turn env b c2 = Some (True, c')" by simp
    then show ?thesis
      using io_step_fields(3) [OF io_step_Flush]
      by (fastforce simp: end_turn_def Let_def bind_Some_iff split: if_splits)
  qed
qed

section \<open>The loop\<close>

text \<open>\<^const>\<open>None\<close> when the connection waits forever, on a read or write that nothing ends.\<close>

partial_function (option) serve_loop :: "'s env \<Rightarrow> 's conn \<Rightarrow> 's conn option" where
  "serve_loop env c =
     (case serve_turn env c of
        None \<Rightarrow> None
      | Some (continue, c') \<Rightarrow> if continue then serve_loop env c' else Some c')"

text \<open>The greeting is the first write on the socket: on a connection of a TLS listener its flush runs the
  handshake, and it does so under no read deadline. A loop is entered only after it, so the flushes of
  the loop and of its handlers find no handshake to do.\<close>

definition serve :: "'s env \<Rightarrow> 's conn \<Rightarrow> 's conn option" where
  "serve env c = do {
     (err, c1) \<leftarrow> flush (sendGreeting env c);
     c2 \<leftarrow> (if err \<noteq> None then Some c1 else serve_loop env c1);
     Some (close_conn env c2)
   }"

section \<open>A connection from its acceptance\<close>

text \<open>What the listener hands over: a TLS connection, a wrapper with an \<open>Unwrap\<close> method (which may give
  nil), or anything else.\<close>

datatype gconn = TlsConn | Wrapper "gconn option" | PlainConn

fun isTLSConn :: "gconn \<Rightarrow> bool" where
  "isTLSConn TlsConn = True"
| "isTLSConn (Wrapper (Some g)) = isTLSConn g"
| "isTLSConn (Wrapper None) = False"
| "isTLSConn PlainConn = False"

text \<open>A connection before its session exists holds a unit in its place. \<open>pend\<close> tells that the TLS handshake
  of the socket is still to come, as it is for what a TLS listener accepts, whether or not the library
  sees that the connection is TLS. The two clock readings are those of the context's deadline and of
  \<open>startTime\<close>.\<close>

definition fresh_conn :: "'s env \<Rightarrow> gconn \<Rightarrow> bool \<Rightarrow> net_ev list \<Rightarrow> peer_write \<Rightarrow> int \<Rightarrow> int \<Rightarrow> unit conn" where
  "fresh_conn env g pend script plan t0 t1 =
     \<lparr>inp = script, rbuf = [], sent = [], wbuf = [], werr = None, wplan = plan,
      wtimeout = WriteTimeout (opts env), now = t1, rdl = None, wdl = None, poisoned = False,
      cancelled = False, tlsPending = pend, isTLS = isTLSConn g, authenticated = False, hijacked = False,
      closePending = False, errorCount = 0, lastErr = None, startTime = t1, cmdStart = 0,
      ctxDeadline = (if 0 < AbsoluteSessionTimeout (opts env)
                     then Some (t0 + AbsoluteSessionTimeout (opts env)) else None),
      registered = True, session = (), trace = []\<rparr>"

definition with_session :: "'s \<Rightarrow> unit conn \<Rightarrow> 's conn" where
  "with_session s c =
     \<lparr>inp = inp c, rbuf = rbuf c, sent = sent c, wbuf = wbuf c, werr = werr c, wplan = wplan c,
      wtimeout = wtimeout c, now = now c, rdl = rdl c, wdl = wdl c, poisoned = poisoned c,
      cancelled = cancelled c, tlsPending = tlsPending c, isTLS = isTLS c, authenticated = authenticated c, hijacked = hijacked c,
      closePending = closePending c, errorCount = errorCount c, lastErr = lastErr c,
      startTime = startTime c, cmdStart = cmdStart c, ctxDeadline = ctxDeadline c,
      registered = registered c, session = s, trace = trace c\<rparr>"

definition net_close :: "'s conn \<Rightarrow> 's conn" where
  "net_close c = (log_obs ONetClose c)\<lparr>registered := False\<rparr>"

definition rejection :: "'s env \<Rightarrow> goerr \<Rightarrow> string" where
  "rejection env err = (case as_Error err of
       Some e \<Rightarrow> wireMessage (up env) e
     | None \<Rightarrow> RejectMessage (opts env))"

text \<open>The left result is a rejected connection, the right one a served connection after its teardown.\<close>

definition handleConn :: "'s env \<Rightarrow> (goerr + 's) callback \<Rightarrow> gconn \<Rightarrow> bool \<Rightarrow> net_ev list \<Rightarrow> peer_write
    \<Rightarrow> int \<Rightarrow> int \<Rightarrow> (unit conn + 's conn) option" where
  "handleConn env NewSession g pend script plan t0 t1 = do {
     (r, c) \<leftarrow> run_callback NewSession (fresh_conn env g pend script plan t0 t1);
     case r of
       Inl err \<Rightarrow>
         if errors_Is err ErrSilentReject then Some (Inl (net_close c))
         else do {
           (e, c1) \<leftarrow> flush (no (rejection env err) c);
           Some (Inl (net_close c1))
         }
     | Inr s \<Rightarrow> do {
         c1 \<leftarrow> serve env (with_session s c);
         Some (Inr (c1\<lparr>registered := False\<rparr>))
       }
   }"

section \<open>Induction over the turns\<close>

text \<open>What holds of a fresh connection and is kept by the turns that go on holds before the last turn.\<close>

lemma serve_loop_Some:
  assumes "serve_loop env c = Some c'"
  shows "serve_turn env c = Some (False, c')
    \<or> (\<exists>c1. serve_turn env c = Some (True, c1) \<and> serve_loop env c1 = Some c')"
proof (cases "serve_turn env c")
  case None
  with assms show ?thesis by (simp add: serve_loop.simps [of env c])
next
  case (Some x)
  obtain cont c1 where x: "x = (cont, c1)" by (cases x)
  with Some assms show ?thesis by (cases cont) (simp_all add: serve_loop.simps [of env c])
qed

lemma serve_loop_last:
  assumes "serve_loop env c = Some c'" "\<not> hijacked c" "I c"
    and keep: "\<And>a b. I a \<Longrightarrow> \<not> hijacked a \<Longrightarrow> serve_turn env a = Some (True, b) \<Longrightarrow> I b"
  shows "\<exists>b. I b \<and> \<not> hijacked b \<and> serve_turn env b = Some (False, c')"
  using assms(1-3)
proof (induction "cost c" arbitrary: c rule: less_induct)
  case less
  consider "serve_turn env c = Some (False, c')"
    | c1 where "serve_turn env c = Some (True, c1)" "serve_loop env c1 = Some c'"
    using serve_loop_Some [OF less(2)] by blast
  then show ?case
  proof cases
    case 1
    with less(3,4) show ?thesis by blast
  next
    case 2
    show ?thesis
      by (rule less(1) [OF hstep_turn(2) [OF 2(1) less(3)] 2(2) hstep_turn(3) [OF 2(1) less(3)]
          keep [OF less(4,3) 2(1)]])
  qed
qed

lemma serve_loop_returns:
  assumes "live env c" "\<not> hijacked c"
    and turn: "\<And>a. live env a \<Longrightarrow> \<not> hijacked a \<Longrightarrow> returns (serve_turn env a)"
  shows "returns (serve_loop env c)"
  using assms(1,2)
proof (induction "cost c" arbitrary: c rule: less_induct)
  case less
  obtain cont c1 where t: "serve_turn env c = Some (cont, c1)" by (rule returnsE [OF turn [OF less(2,3)]])
  show ?case
  proof (cases cont)
    case True
    with t have t': "serve_turn env c = Some (True, c1)" by simp
    from less(1) [OF hstep_turn(2) [OF t' less(3)] live_step [OF hstep_turn(1) [OF t' less(3)] less(2)]
        hstep_turn(3) [OF t' less(3)]] t'
    show ?thesis by (subst serve_loop.simps) simp
  next
    case False
    with t show ?thesis by (subst serve_loop.simps) simp
  qed
qed

section \<open>The last turn\<close>

lemma hstep_farewell: "farewell l c = Some c' \<Longrightarrow> hstep env 0 c c'"
  unfolding farewell_def
  by (auto intro: hstep_trans00 [OF hstep_responds0 [OF responds_writeLine] hstep_Flush])

text \<open>At the end a connection may also have reported a timeout.\<close>

definition ended :: "'s conn \<Rightarrow> 's conn \<Rightarrow> bool" where
  "ended c c' \<longleftrightarrow> (\<exists>es. trace c' = trace c @ es \<and> (\<forall>p. tracks p c \<longrightarrow>
     (\<exists>q. rfc_run p es q \<and> q \<le> Ending)))"

lemma ended_hstep:
  assumes "hstep env k c c'" shows "ended c c'"
proof -
  from assms obtain es where es: "trace c' = trace c @ es"
    and r: "\<forall>p. tracks p c \<longrightarrow> (\<exists>q. rfc_run p es q \<and> tracks q c')"
    using hstepD(14) unfolding logs_def by blast
  have "q \<le> Ending" if "tracks q c'" for q using tracks_le [OF that] by (simp add: phase_order)
  with es r show ?thesis unfolding ended_def by blast
qed

lemma ended_trans:
  assumes "hstep env k a b" "ended b c" shows "ended a c"
proof -
  obtain es where es: "trace b = trace a @ es"
    "\<And>p. tracks p a \<Longrightarrow> \<exists>q. rfc_run p es q \<and> tracks q b"
    using hstepD(14) [OF assms(1)] unfolding logs_def by blast
  obtain fs where fs: "trace c = trace b @ fs"
    "\<And>p. tracks p b \<Longrightarrow> \<exists>q. rfc_run p fs q \<and> q \<le> Ending"
    using assms(2) unfolding ended_def by blast
  show ?thesis unfolding ended_def
  proof (intro exI [of _ "es @ fs"] conjI allI impI)
    show "trace c = trace a @ es @ fs" using es(1) fs(1) by simp
    fix p assume "tracks p a"
    with es(2) fs(2) show "\<exists>q. rfc_run p (es @ fs) q \<and> q \<le> Ending"
      unfolding rfc_run_append by blast
  qed
qed

lemma ended_timeout:
  assumes "hstep env k c c1" shows "ended c (report_timeout env' kind c1)"
proof (cases "OnTimeout (opts env')")
  case True
  have "ended c1 (log_obs (OTimeout kind) c1)" unfolding ended_def
  proof (intro exI [of _ "[OTimeout kind]"] conjI allI impI)
    fix p assume "tracks p c1"
    from rfc_step.timeout [OF tracks_le [OF this]]
    show "\<exists>q. rfc_run p [OTimeout kind] q \<and> q \<le> Ending" by (auto simp: rfc_run_one)
  qed simp
  with ended_trans [OF assms] True show ?thesis by (simp add: report_timeout_def)
qed (simp add: report_timeout_def ended_hstep [OF assms])

lemma ended_end_timeout: "end_timeout env msg kind c = Some c' \<Longrightarrow> ended c c'"
  by (auto simp: end_timeout_def intro: ended_timeout [OF hstep_farewell [where env = env]])

lemma ended_shutdown: "shutdownBye env c = Some c' \<Longrightarrow> ended c c'"
  by (auto simp: shutdownBye_def intro: ended_end_timeout ended_hstep [OF hstep_farewell [where env = env]]
      split: if_splits)

lemma ended_failed: "read_failed env e c = Some c' \<Longrightarrow> ended c c'"
  by (auto simp: read_failed_def intro: ended_end_timeout ended_shutdown
      ended_hstep [OF hstep_farewell [where env = env]] ended_hstep [OF hstep_refl [where env = env]]
      split: if_splits)

lemma serve_turn_cases:
  assumes "serve_turn env c = Some (cont, c')"
  obtains
    (shutdown) "ctxErr c" "shutdownBye env c = Some c'" "\<not> cont"
  | (failed) e c1 where "\<not> ctxErr c" "readLine env (armRead env c) = Some (Inl e, c1)"
      "read_failed env e c1 = Some c'" "\<not> cont"
  | (line) l c1 q c2 where "\<not> ctxErr c" "readLine env (armRead env c) = Some (Inr l, c1)"
      "execute env l c1 = Some (q, c2)"
      "(case q of None \<Rightarrow> Some (True, c2) | Some b \<Rightarrow> end_turn env b c2) = Some (cont, c')"
proof (cases "ctxErr c")
  case True
  with assms shutdown show ?thesis by (auto simp: serve_turn_def)
next
  case False
  then obtain r c1 where r: "readLine env (armRead env c) = Some (r, c1)"
    using assms by (auto simp: serve_turn_def bind_Some_iff)
  show ?thesis
  proof (cases r)
    case (Inl e)
    with r False assms failed show ?thesis by (auto simp: serve_turn_def)
  next
    case (Inr l)
    with r False assms line show ?thesis by (auto simp: serve_turn_def bind_Some_iff)
  qed
qed

lemma io_readLine_arm: "readLine env (armRead env c) = Some (r, c1) \<Longrightarrow> io_step c c1"
  by (rule io_step_trans [OF io_step_deadline(3) io_step_readLine])

lemma ended_turn:
  assumes "serve_turn env c = Some (cont, c')" "\<not> hijacked c"
  shows "ended c c'"
  using assms(1)
proof (cases rule: serve_turn_cases)
  case shutdown
  then show ?thesis by (blast intro: ended_shutdown)
next
  case (failed e c1)
  from ended_trans [OF hstep_readLine [OF failed(2)] ended_failed [OF failed(3)]] show ?thesis .
next
  case (line l c1 q c2)
  have "\<not> hijacked c1" using io_step_fields(3) [OF io_readLine_arm [OF line(2)]] assms(2) by simp
  note h = hstep_trans01 [OF hstep_readLine [OF line(2)] hstep_execute [OF line(3) this]]
  have "hstep env (Suc 0) c c'"
    using line(4) h by (auto intro: hstep_trans10 [OF h hstep_end_turn] split: option.splits)
  then show ?thesis by (rule ended_hstep)
qed

text \<open>The teardown closes the session, and the socket unless it was handed over.\<close>

lemma close_conn_trace:
  "trace (close_conn env c) = trace c @ (if hijacked c then [OSessionClose] else [OSessionClose, ONetClose])"
  "hijacked (close_conn env c) = hijacked c" "sent (close_conn env c) = sent c"
  "pending (close_conn env c) = pending c" "errorCount (close_conn env c) = errorCount c"
  "registered (close_conn env c) = registered c" "authenticated (close_conn env c) = authenticated c"
  by (simp_all add: close_conn_def Let_def pending_def)

definition fresh :: "'s conn \<Rightarrow> bool" where
  "fresh c \<longleftrightarrow> \<not> authenticated c \<and> \<not> hijacked c \<and> trace c = [] \<and> errorCount c = 0 \<and> registered c
     \<and> wbuf c = [] \<and> werr c = None"

lemma serve_cases:
  assumes "serve env c = Some c'"
  obtains (greeting) e c1 where "flush (sendGreeting env c) = Some (Some e, c1)" "c' = close_conn env c1"
  | (loop) c1 c2 where "flush (sendGreeting env c) = Some (None, c1)" "serve_loop env c1 = Some c2"
      "c' = close_conn env c2"
proof -
  obtain err c1 where f: "flush (sendGreeting env c) = Some (err, c1)"
    using assms by (auto simp: serve_def bind_Some_iff)
  show ?thesis
  proof (cases err)
    case None
    with f assms obtain c2 where "serve_loop env c1 = Some c2" "c' = close_conn env c2"
      by (auto simp: serve_def bind_Some_iff)
    with loop f None show ?thesis by blast
  next
    case (Some e)
    with f assms greeting show ?thesis by (auto simp: serve_def)
  qed
qed

lemma greeting_step:
  assumes "flush (sendGreeting env c) = Some (err, c1)"
  shows "hstep env 0 c c1" "io_step (sendGreeting env c) c1"
    "trace c1 = trace c" "hijacked c1 = hijacked c" "authenticated c1 = authenticated c"
    "errorCount c1 = errorCount c" "registered c1 = registered c" "isTLS c1 = isTLS c"
  using hstep_trans00 [OF hstep_responds0 [OF responds_greeting] hstep_flush [OF assms]]
    io_step_flush [OF assms] io_step_fields [OF io_step_flush [OF assms]] by simp_all

lemma trace_keep:
  assumes "hstep env k a b" "\<exists>p. rfc_run NonAuthenticated (trace a) p \<and> tracks p a"
  shows "\<exists>p. rfc_run NonAuthenticated (trace b) p \<and> tracks p b"
  using hstepD(14) [OF assms(1)] assms(2) unfolding logs_def by (metis rfc_run_append)

lemma serve_trace:
  assumes "serve env c = Some c'" "fresh c"
  shows "\<exists>p. rfc_run NonAuthenticated (trace c') p \<and> p = (if hijacked c' then SessionClosed else Closed)"
proof -
  have fin: ?thesis if "rfc_run NonAuthenticated (trace b) p" "p \<le> Ending" "c' = close_conn env b" for b p
  proof (intro exI conjI)
    have "rfc_run p [OSessionClose] SessionClosed" using that(2) by (simp add: rfc_run_one rfc_step.session_close)
    moreover have "rfc_run p [OSessionClose, ONetClose] Closed"
      using that(2) by (auto simp: rfc_run_Cons intro: rfc_step.session_close rfc_step.net_close)
    ultimately show "rfc_run NonAuthenticated (trace c') (if hijacked c' then SessionClosed else Closed)"
      using that(1,3) by (auto simp: close_conn_trace rfc_run_append)
  qed simp
  from assms(1) show ?thesis
  proof (cases rule: serve_cases)
    case (greeting e c1)
    show ?thesis using fin [of c1 NonAuthenticated] greeting greeting_step(3) [OF greeting(1)] assms(2)
      by (simp add: fresh_def phase_order)
  next
    case (loop c1 c2)
    note g = greeting_step [OF loop(1)]
    have nh: "\<not> hijacked c1" using g assms(2) by (simp add: fresh_def)
    let ?I = "\<lambda>a. \<exists>p. rfc_run NonAuthenticated (trace a) p \<and> tracks p a"
    have "?I c1" using g assms(2) by (auto simp: fresh_def tracks_def)
    from serve_loop_last [OF loop(2) nh, of ?I, OF this] obtain b where
      b: "?I b" "\<not> hijacked b" "serve_turn env b = Some (False, c2)"
      using trace_keep hstep_turn(1) by blast
    from ended_turn [OF b(3,2)] b(1) obtain q where "rfc_run NonAuthenticated (trace c2) q" "q \<le> Ending"
      unfolding ended_def by (metis rfc_run_append)
    with fin loop(3) show ?thesis by blast
  qed
qed

end
