(* ===== verification/MemStore.thy ===== *)
theory MemStore
  imports Options
begin

text \<open>
  The in-memory backend (\<open>managesievemem/store.go\<close>): accounts with their scripts, and the session over
  them that the server drives. SHA-256 is a parameter. An account's scripts are a list in the order of
  their creation, as in the code; the abstract view of an account is a map from names to contents and
  the name of its active script.
\<close>

section \<open>State\<close>

record script =
  sc_name :: string
  sc_content :: string
  sc_active :: bool

record account =
  acc_password :: string
  acc_scripts :: "script list"

text \<open>\<open>Validate\<close> is the host's hook: an error, or warnings.\<close>

record Store =
  MaxScripts :: int
  Validate :: "(string \<Rightarrow> goerr + string) option"
  accounts :: "string \<rightharpoonup> account"

record mem_session =
  store :: Store
  username :: string

definition New :: Store where
  "New = \<lparr>MaxScripts = 0, Validate = None, accounts = Map.empty\<rparr>"

definition AddUser :: "(string \<Rightarrow> string) \<Rightarrow> string \<Rightarrow> string \<Rightarrow> Store \<Rightarrow> Store" where
  "AddUser sha256 user password s =
     s\<lparr>accounts := (accounts s)(user \<mapsto> \<lparr>acc_password = sha256 password, acc_scripts = []\<rparr>)\<rparr>"

section \<open>Lists of scripts\<close>

text \<open>\<open>find\<close> returns a pointer to the first script of that name; a write through the pointer is
  \<open>update_first\<close>.\<close>

fun find_script :: "string \<Rightarrow> script list \<Rightarrow> script option" where
  "find_script name [] = None"
| "find_script name (sc # scs) = (if sc_name sc = name then Some sc else find_script name scs)"

fun update_first :: "string \<Rightarrow> (script \<Rightarrow> script) \<Rightarrow> script list \<Rightarrow> script list" where
  "update_first name f [] = []"
| "update_first name f (sc # scs) =
     (if sc_name sc = name then f sc # scs else sc # update_first name f scs)"

fun remove_first :: "string \<Rightarrow> script list \<Rightarrow> script list" where
  "remove_first name [] = []"
| "remove_first name (sc # scs) = (if sc_name sc = name then scs else sc # remove_first name scs)"

definition deactivate :: "script list \<Rightarrow> script list" where
  "deactivate scs = map (\<lambda>sc. sc\<lparr>sc_active := False\<rparr>) scs"

definition set_scripts :: "string \<Rightarrow> script list \<Rightarrow> Store \<Rightarrow> Store" where
  "set_scripts user scs s =
     (case accounts s user of
        None \<Rightarrow> s
      | Some a \<Rightarrow> s\<lparr>accounts := (accounts s)(user \<mapsto> a\<lparr>acc_scripts := scs\<rparr>)\<rparr>)"

definition AddScript :: "string \<Rightarrow> string \<Rightarrow> string \<Rightarrow> bool \<Rightarrow> Store \<Rightarrow> goerr option \<times> Store" where
  "AddScript user name content active s =
     (case accounts s user of
        None \<Rightarrow> (Some (PlainErr (''managesievemem: unknown user '' @ user)), s)
      | Some a \<Rightarrow>
          let scs = (if active then deactivate (acc_scripts a) else acc_scripts a) in
          (None, set_scripts user
             (if find_script name scs \<noteq> None
              then update_first name (\<lambda>sc. sc\<lparr>sc_content := content, sc_active := active\<rparr>) scs
              else scs @ [\<lparr>sc_name = name, sc_content = content, sc_active = active\<rparr>]) s))"

section \<open>The session\<close>

definition errAuthFailed :: goerr where
  "errAuthFailed = MsErr \<lparr>err_Code = [], err_Message = Quote ''Authentication failed'', err_Close = False\<rparr>"

definition coded :: "string \<Rightarrow> string \<Rightarrow> goerr" where
  "coded cd msg = MsErr \<lparr>err_Code = cd, err_Message = msg, err_Close = False\<rparr>"

definition nonexistent :: goerr where
  "nonexistent = coded ''NONEXISTENT'' ''Script does not exist''"

definition dummyPassword :: "(string \<Rightarrow> string) \<Rightarrow> string" where
  "dummyPassword sha256 = sha256 ''managesievemem-dummy-password''"

definition login :: "(string \<Rightarrow> string) \<Rightarrow> string \<Rightarrow> string \<Rightarrow> mem_session \<Rightarrow> goerr option \<times> mem_session" where
  "login sha256 user password sess =
     (let acct = accounts (store sess) user;
          stored = (case acct of None \<Rightarrow> dummyPassword sha256 | Some a \<Rightarrow> acc_password a);
          given = sha256 password
      in if stored \<noteq> given \<or> acct = None then (Some errAuthFailed, sess)
         else (None, sess\<lparr>username := user\<rparr>))"

definition AuthenticatePlain :: "(string \<Rightarrow> string) \<Rightarrow> string \<Rightarrow> string \<Rightarrow> string \<Rightarrow> mem_session
    \<Rightarrow> goerr option \<times> mem_session" where
  "AuthenticatePlain sha256 identity user password sess =
     (if identity \<noteq> [] \<and> identity \<noteq> user then (Some errAuthFailed, sess)
      else login sha256 user password sess)"

definition authed :: "mem_session \<Rightarrow> goerr + account" where
  "authed sess = (case accounts (store sess) (username sess) of
       None \<Rightarrow> Inl ErrCloseConnection
     | Some a \<Rightarrow> Inr a)"

text \<open>A write to the session's account.\<close>

definition put_scripts :: "script list \<Rightarrow> mem_session \<Rightarrow> mem_session" where
  "put_scripts scs sess = sess\<lparr>store := set_scripts (username sess) scs (store sess)\<rparr>"

definition wrapValidationError :: "(nat \<Rightarrow> nat) \<Rightarrow> goerr \<Rightarrow> goerr" where
  "wrapValidationError upper err =
     (case as_Error err of
        Some e \<Rightarrow> err
      | None \<Rightarrow> MsErr \<lparr>err_Code = [],
          err_Message = Quote (''Script validation failed: '' @ SanitizeText (err_text upper err)),
          err_Close = False\<rparr>)"

text \<open>\<open>v(content)\<close> with its error wrapped; without a hook everything is valid.\<close>

definition run_validate :: "(nat \<Rightarrow> nat) \<Rightarrow> string \<Rightarrow> Store \<Rightarrow> goerr + string" where
  "run_validate upper content s =
     (case Validate s of
        None \<Rightarrow> Inr []
      | Some v \<Rightarrow> (case v content of
            Inl err \<Rightarrow> Inl (wrapValidationError upper err)
          | Inr warnings \<Rightarrow> Inr warnings))"

definition ListScripts :: "mem_session \<Rightarrow> (goerr + ScriptInfo list) \<times> mem_session" where
  "ListScripts sess =
     (case authed sess of
        Inl e \<Rightarrow> (Inl e, sess)
      | Inr a \<Rightarrow>
          (Inr (map (\<lambda>sc. \<lparr>si_Name = sc_name sc, si_Active = sc_active sc\<rparr>) (acc_scripts a)), sess))"

definition GetScript :: "string \<Rightarrow> mem_session \<Rightarrow> (goerr + string) \<times> mem_session" where
  "GetScript name sess =
     (case authed sess of
        Inl e \<Rightarrow> (Inl e, sess)
      | Inr a \<Rightarrow>
          (case find_script name (acc_scripts a) of
             None \<Rightarrow> (Inl nonexistent, sess)
           | Some sc \<Rightarrow> (Inr (sc_content sc), sess)))"

definition quota_full :: "account \<Rightarrow> Store \<Rightarrow> bool" where
  "quota_full a s \<longleftrightarrow> 0 < MaxScripts s \<and> MaxScripts s \<le> int (length (acc_scripts a))"

definition PutScriptWarnings :: "(nat \<Rightarrow> nat) \<Rightarrow> string \<Rightarrow> string \<Rightarrow> mem_session
    \<Rightarrow> (goerr + bool \<times> string) \<times> mem_session" where
  "PutScriptWarnings upper name content sess =
     (case run_validate upper content (store sess) of
        Inl e \<Rightarrow> (Inl e, sess)
      | Inr warnings \<Rightarrow>
          (case authed sess of
             Inl e \<Rightarrow> (Inl e, sess)
           | Inr a \<Rightarrow>
               if find_script name (acc_scripts a) \<noteq> None then
                 (Inr (True, warnings), put_scripts
                   (update_first name (\<lambda>sc. sc\<lparr>sc_content := content\<rparr>) (acc_scripts a)) sess)
               else if quota_full a (store sess) then
                 (Inl (coded ''QUOTA/MAXSCRIPTS'' ''Too many scripts for this account''), sess)
               else
                 (Inr (False, warnings), put_scripts
                   (acc_scripts a @ [\<lparr>sc_name = name, sc_content = content, sc_active = False\<rparr>]) sess)))"

definition PutScript :: "(nat \<Rightarrow> nat) \<Rightarrow> string \<Rightarrow> string \<Rightarrow> mem_session \<Rightarrow> (goerr + bool) \<times> mem_session" where
  "PutScript upper name content sess =
     (case PutScriptWarnings upper name content sess of
        (Inl e, sess') \<Rightarrow> (Inl e, sess')
      | (Inr (updated, w), sess') \<Rightarrow> (Inr updated, sess'))"

definition CheckScript :: "(nat \<Rightarrow> nat) \<Rightarrow> string \<Rightarrow> mem_session \<Rightarrow> (goerr + string) \<times> mem_session" where
  "CheckScript upper content sess = (run_validate upper content (store sess), sess)"

text \<open>\<open>SetActive\<close> with a name takes the lock twice: first to find the script and copy its content, then,
  after the validation without the lock, to activate it.\<close>

definition SetActive_snapshot :: "string \<Rightarrow> mem_session \<Rightarrow> goerr + string" where
  "SetActive_snapshot name sess =
     (case authed sess of
        Inl e \<Rightarrow> Inl e
      | Inr a \<Rightarrow> (case find_script name (acc_scripts a) of
          None \<Rightarrow> Inl nonexistent
        | Some sc \<Rightarrow> Inr (sc_content sc)))"

definition SetActive_commit :: "string \<Rightarrow> mem_session \<Rightarrow> goerr option \<times> mem_session" where
  "SetActive_commit name sess =
     (case authed sess of
        Inl e \<Rightarrow> (Some e, sess)
      | Inr a \<Rightarrow>
          (case find_script name (acc_scripts a) of
             None \<Rightarrow> (Some nonexistent, sess)
           | Some sc \<Rightarrow> (None, put_scripts
               (update_first name (\<lambda>sc. sc\<lparr>sc_active := True\<rparr>) (deactivate (acc_scripts a))) sess)))"

definition SetActive_none :: "mem_session \<Rightarrow> goerr option \<times> mem_session" where
  "SetActive_none sess =
     (case authed sess of
        Inl e \<Rightarrow> (Some e, sess)
      | Inr a \<Rightarrow> (None, put_scripts (deactivate (acc_scripts a)) sess))"

definition SetActive :: "(nat \<Rightarrow> nat) \<Rightarrow> string \<Rightarrow> mem_session \<Rightarrow> goerr option \<times> mem_session" where
  "SetActive upper name sess =
     (if name = [] then SetActive_none sess
      else (case SetActive_snapshot name sess of
          Inl e \<Rightarrow> (Some e, sess)
        | Inr content \<Rightarrow>
            (case run_validate upper content (store sess) of
               Inl e \<Rightarrow> (Some e, sess)
             | Inr w \<Rightarrow> SetActive_commit name sess)))"

definition DeleteScript :: "string \<Rightarrow> mem_session \<Rightarrow> goerr option \<times> mem_session" where
  "DeleteScript name sess =
     (case authed sess of
        Inl e \<Rightarrow> (Some e, sess)
      | Inr a \<Rightarrow>
          (case find_script name (acc_scripts a) of
             None \<Rightarrow> (Some nonexistent, sess)
           | Some sc \<Rightarrow>
               if sc_active sc
               then (Some (coded ''ACTIVE'' ''Cannot delete the active script; deactivate it first''), sess)
               else (None, put_scripts (remove_first name (acc_scripts a)) sess)))"

definition RenameScript :: "string \<Rightarrow> string \<Rightarrow> mem_session \<Rightarrow> goerr option \<times> mem_session" where
  "RenameScript oldName newName sess =
     (case authed sess of
        Inl e \<Rightarrow> (Some e, sess)
      | Inr a \<Rightarrow>
          (case find_script oldName (acc_scripts a) of
             None \<Rightarrow> (Some nonexistent, sess)
           | Some sc \<Rightarrow>
               if find_script newName (acc_scripts a) \<noteq> None
               then (Some (coded ''ALREADYEXISTS'' ''A script with the new name already exists''), sess)
               else (None, put_scripts
                 (update_first oldName (\<lambda>sc. sc\<lparr>sc_name := newName\<rparr>) (acc_scripts a)) sess)))"

definition HaveSpace :: "string \<Rightarrow> int \<Rightarrow> mem_session \<Rightarrow> goerr option \<times> mem_session" where
  "HaveSpace name n sess =
     (case authed sess of
        Inl e \<Rightarrow> (Some e, sess)
      | Inr a \<Rightarrow>
          if 0 < MaxScripts (store sess) \<and> find_script name (acc_scripts a) = None
             \<and> MaxScripts (store sess) \<le> int (length (acc_scripts a))
          then (Some (coded ''QUOTA/MAXSCRIPTS'' ''Maximum number of scripts reached''), sess)
          else (None, sess))"

text \<open>The session as the server sees it: it has both optional interfaces.\<close>

definition mem_ops :: "(string \<Rightarrow> string) \<Rightarrow> (nat \<Rightarrow> nat) \<Rightarrow> mem_session Session" where
  "mem_ops sha256 upper = \<lparr>
     s_Close = (\<lambda>s. s),
     s_AuthenticatePlain = (\<lambda>z u p s. CRet (AuthenticatePlain sha256 z u p s)),
     s_ListScripts = ListScripts,
     s_GetScript = GetScript,
     s_PutScript = PutScript upper,
     s_CheckScript = CheckScript upper,
     s_SetActive = SetActive upper,
     s_DeleteScript = DeleteScript,
     s_RenameScript = RenameScript,
     s_HaveSpace = HaveSpace,
     s_PutScriptWarnings = Some (PutScriptWarnings upper),
     s_Login = Some (\<lambda>u p s. CRet (login sha256 u p s))\<rparr>"

definition NewSession :: "Store \<Rightarrow> (goerr + mem_session) callback" where
  "NewSession s = CRet (Inr \<lparr>store = s, username = []\<rparr>)"

section \<open>Facts on the lists\<close>

definition names :: "script list \<Rightarrow> string list" where
  "names scs = map sc_name scs"

definition actives :: "script list \<Rightarrow> script list" where
  "actives scs = filter sc_active scs"

text \<open>The well-formed accounts: every name once, at most one active script.\<close>

definition wf_scripts :: "script list \<Rightarrow> bool" where
  "wf_scripts scs \<longleftrightarrow> distinct (names scs) \<and> length (actives scs) \<le> 1"

lemma names_simps [simp]:
  "names [] = []" "names (sc # scs) = sc_name sc # names scs" "names (xs @ ys) = names xs @ names ys"
  by (simp_all add: names_def)

lemma actives_simps [simp]:
  "actives [] = []" "actives (sc # scs) = (if sc_active sc then sc # actives scs else actives scs)"
  "actives (xs @ ys) = actives xs @ actives ys"
  by (simp_all add: actives_def)

lemma find_script_None: "find_script n scs = None \<longleftrightarrow> n \<notin> set (names scs)"
  by (induction scs) auto

lemma find_script_Some: "find_script n scs = Some sc \<Longrightarrow> sc \<in> set scs \<and> sc_name sc = n"
  by (induction scs) (auto split: if_splits)

lemma find_append: "find_script n (xs @ ys) = (case find_script n xs of Some sc \<Rightarrow> Some sc | None \<Rightarrow> find_script n ys)"
  by (induction xs) auto

lemma update_first_names: "(\<And>sc. sc_name (f sc) = sc_name sc) \<Longrightarrow> names (update_first n f scs) = names scs"
  by (induction scs) auto

lemma find_update:
  "(\<And>sc. sc_name (f sc) = sc_name sc) \<Longrightarrow> find_script m (update_first n f scs) =
     (if m = n then map_option f (find_script m scs) else find_script m scs)"
  by (induction scs) auto

lemma update_first_actives: "(\<And>sc. sc_active (f sc) = sc_active sc) \<Longrightarrow>
    length (actives (update_first n f scs)) = length (actives scs)"
  by (induction scs) auto

lemma length_update_first [simp]: "length (update_first n f scs) = length scs"
  by (induction scs) auto

lemma deactivate_facts [simp]:
  "names (deactivate scs) = names scs" "actives (deactivate scs) = []"
  "find_script n (deactivate scs) = map_option (\<lambda>sc. sc\<lparr>sc_active := False\<rparr>) (find_script n scs)"
  "length (deactivate scs) = length scs"
  by (induction scs) (simp_all add: deactivate_def)

lemma length_actives_activate:
  "actives scs = [] \<Longrightarrow> length (actives (update_first n (\<lambda>sc. sc\<lparr>sc_active := True\<rparr>) scs)) \<le> 1"
  by (induction scs) (auto split: if_splits)

lemma remove_first_names: "names (remove_first n scs) = remove1 n (names scs)"
  by (induction scs) auto

lemma length_actives_remove: "length (actives (remove_first n scs)) \<le> length (actives scs)"
  by (induction scs) auto

lemma find_remove:
  "distinct (names scs) \<Longrightarrow> find_script m (remove_first n scs) = (if m = n then None else find_script m scs)"
  by (induction scs) (auto simp: find_script_None)

lemma length_remove_first: "length (remove_first n scs) \<le> length scs"
  by (induction scs) auto

lemma rename_names:
  assumes "distinct (names scs)" "new \<notin> set (names scs)"
  shows "distinct (names (update_first old (\<lambda>sc. sc\<lparr>sc_name := new\<rparr>) scs))"
proof -
  have "set (names (update_first old (\<lambda>sc. sc\<lparr>sc_name := new\<rparr>) scs)) \<subseteq> insert new (set (names scs))"
    for scs by (induction scs) auto
  with assms show ?thesis by (induction scs) auto
qed

lemma find_rename:
  assumes "distinct (names scs)" "new \<notin> set (names scs)" "old \<in> set (names scs)"
  shows "find_script m (update_first old (\<lambda>sc. sc\<lparr>sc_name := new\<rparr>) scs) =
    (if m = new then map_option (\<lambda>sc. sc\<lparr>sc_name := new\<rparr>) (find_script old scs)
     else if m = old then None else find_script m scs)"
  using assms by (induction scs) (auto simp: find_script_None)

section \<open>The abstract account\<close>

text \<open>An account as the protocol sees it: a map of contents, and the active script.\<close>

definition contents :: "script list \<Rightarrow> (string \<rightharpoonup> string)" where
  "contents scs = (\<lambda>n. map_option sc_content (find_script n scs))"

definition active_name :: "script list \<Rightarrow> string option" where
  "active_name scs = map_option sc_name (find sc_active scs)"

lemma active_name_None: "active_name scs = None \<longleftrightarrow> actives scs = []"
  by (auto simp: active_name_def actives_def find_None_iff filter_empty_conv)

lemma active_name_actives:
  "length (actives scs) \<le> 1 \<Longrightarrow> active_name scs = (case actives scs of [] \<Rightarrow> None | sc # _ \<Rightarrow> Some (sc_name sc))"
  by (induction scs) (auto simp: active_name_def split: list.splits)

type_synonym abs_account = "(string \<rightharpoonup> string) \<times> string option"

definition abs_scripts :: "script list \<Rightarrow> abs_account" where
  "abs_scripts scs = (contents scs, active_name scs)"

definition abs_session :: "mem_session \<Rightarrow> abs_account option" where
  "abs_session sess = map_option (\<lambda>a. abs_scripts (acc_scripts a)) (accounts (store sess) (username sess))"

text \<open>The operations on it, as RFC 5804 has them; a refusal carries its response code.\<close>

fun spec_put :: "int \<Rightarrow> string \<Rightarrow> string \<Rightarrow> abs_account \<Rightarrow> string + bool \<times> abs_account" where
  "spec_put lim name content (m, act) =
     (if m name \<noteq> None then Inr (True, m(name \<mapsto> content), act)
      else if 0 < lim \<and> lim \<le> int (card (dom m)) then Inl ''QUOTA/MAXSCRIPTS''
      else Inr (False, m(name \<mapsto> content), act))"

fun spec_delete :: "string \<Rightarrow> abs_account \<Rightarrow> string + abs_account" where
  "spec_delete name (m, act) =
     (if m name = None then Inl ''NONEXISTENT''
      else if act = Some name then Inl ''ACTIVE''
      else Inr (m(name := None), act))"

fun spec_rename :: "string \<Rightarrow> string \<Rightarrow> abs_account \<Rightarrow> string + abs_account" where
  "spec_rename old new (m, act) =
     (if m old = None then Inl ''NONEXISTENT''
      else if m new \<noteq> None then Inl ''ALREADYEXISTS''
      else Inr (m(old := None, new := m old), if act = Some old then Some new else act))"

fun spec_activate :: "string \<Rightarrow> abs_account \<Rightarrow> string + abs_account" where
  "spec_activate name (m, act) =
     (if name = [] then Inr (m, None)
      else if m name = None then Inl ''NONEXISTENT''
      else Inr (m, Some name))"

section \<open>Facts on the abstract view\<close>

lemma contents_None: "contents scs n = None \<longleftrightarrow> n \<notin> set (names scs)"
  by (simp add: contents_def find_script_None)

lemma card_dom_contents: "distinct (names scs) \<Longrightarrow> card (dom (contents scs)) = length scs"
proof -
  assume "distinct (names scs)"
  moreover have "dom (contents scs) = set (names scs)" by (rule set_eqI) (metis contents_None domIff)
  ultimately show ?thesis by (simp add: distinct_card) (simp add: names_def)
qed

lemma contents_update:
  "n \<in> set (names scs) \<Longrightarrow>
     contents (update_first n (\<lambda>sc. sc\<lparr>sc_content := c\<rparr>) scs) = (contents scs)(n \<mapsto> c)"
  by (auto simp: fun_eq_iff contents_def find_update option.map_comp comp_def)
     (metis find_script_None not_None_eq option.simps(9))

lemma find_active_update:
  "(\<And>sc. sc_active (f sc) = sc_active sc) \<Longrightarrow> (\<And>sc. sc_name (f sc) = sc_name sc) \<Longrightarrow>
     active_name (update_first n f scs) = active_name scs"
  by (induction scs) (auto simp: active_name_def)

lemma contents_append:
  "n \<notin> set (names scs) \<Longrightarrow>
     contents (scs @ [\<lparr>sc_name = n, sc_content = c, sc_active = b\<rparr>]) = (contents scs)(n \<mapsto> c)"
  by (auto simp: fun_eq_iff contents_def find_append find_script_None [THEN iffD2] split: option.splits)

lemma active_append:
  "active_name (scs @ [\<lparr>sc_name = n, sc_content = c, sc_active = False\<rparr>]) = active_name scs"
  by (induction scs) (auto simp: active_name_def)

lemma contents_remove: "distinct (names scs) \<Longrightarrow> contents (remove_first n scs) = (contents scs)(n := None)"
  by (auto simp: fun_eq_iff contents_def find_remove)

lemma active_in_names: "active_name scs = Some n \<Longrightarrow> n \<in> set (names scs)"
  by (induction scs) (auto simp: active_name_def split: if_splits)

lemma active_script:
  assumes "wf_scripts scs" "find_script n scs = Some sc"
  shows "sc_active sc \<longleftrightarrow> active_name scs = Some n"
proof -
  have "find_script n scs = Some sc \<Longrightarrow> distinct (names scs) \<Longrightarrow> length (actives scs) \<le> 1 \<Longrightarrow>
    sc_active sc \<longleftrightarrow> active_name scs = Some n"
  proof (induction scs)
    case (Cons x xs)
    have "sc_active x \<Longrightarrow> actives xs = []" using Cons.prems(3) by simp
    moreover have "find_script n xs = Some sc \<Longrightarrow> sc_active sc \<Longrightarrow> sc \<in> set (actives xs)"
      using find_script_Some [of n xs sc] by (simp add: actives_def)
    moreover have "active_name xs = Some n \<Longrightarrow> n \<in> set (names xs)" by (rule active_in_names)
    ultimately show ?case using Cons by (auto simp: active_name_def split: if_splits)
  qed simp
  with assms show ?thesis by (simp add: wf_scripts_def)
qed

lemma active_remove:
  assumes "wf_scripts scs" "active_name scs \<noteq> Some n"
  shows "active_name (remove_first n scs) = active_name scs"
proof -
  have "distinct (names scs) \<Longrightarrow> active_name scs \<noteq> Some n \<Longrightarrow>
      active_name (remove_first n scs) = active_name scs"
    by (induction scs) (auto simp: active_name_def split: if_splits)
  with assms show ?thesis by (simp add: wf_scripts_def)
qed

lemma contents_rename:
  assumes "distinct (names scs)" "new \<notin> set (names scs)" "old \<in> set (names scs)"
  shows "contents (update_first old (\<lambda>sc. sc\<lparr>sc_name := new\<rparr>) scs)
    = (contents scs)(old := None, new := contents scs old)"
  by (auto simp: fun_eq_iff contents_def find_rename [OF assms] option.map_comp comp_def)

lemma active_rename:
  assumes "distinct (names scs)"
  shows "active_name (update_first old (\<lambda>sc. sc\<lparr>sc_name := new\<rparr>) scs)
    = (if active_name scs = Some old then Some new else active_name scs)"
  using assms
proof (induction scs)
  case (Cons x xs)
  have "active_name xs = Some (sc_name x) \<Longrightarrow> sc_name x \<in> set (names xs)" by (rule active_in_names)
  with Cons show ?case by (auto simp: active_name_def split: if_splits)
qed (simp add: active_name_def)

lemma contents_deactivate [simp]: "contents (deactivate scs) = contents scs"
  by (simp add: contents_def option.map_comp comp_def)

lemma active_deactivate [simp]: "active_name (deactivate scs) = None"
  by (simp add: active_name_None)

lemma contents_activate [simp]:
  "contents (update_first n (\<lambda>sc. sc\<lparr>sc_active := b\<rparr>) scs) = contents scs"
  by (simp add: fun_eq_iff contents_def find_update option.map_comp comp_def)

lemma active_activate:
  "actives scs = [] \<Longrightarrow> n \<in> set (names scs) \<Longrightarrow>
     active_name (update_first n (\<lambda>sc. sc\<lparr>sc_active := True\<rparr>) scs) = Some n"
  by (induction scs) (auto simp: active_name_def split: if_splits)

text \<open>Well-formedness is kept.\<close>

lemma wf_put:
  "wf_scripts scs \<Longrightarrow> wf_scripts (update_first n (\<lambda>sc. sc\<lparr>sc_content := c\<rparr>) scs)"
  "wf_scripts scs \<Longrightarrow> n \<notin> set (names scs) \<Longrightarrow>
     wf_scripts (scs @ [\<lparr>sc_name = n, sc_content = c, sc_active = False\<rparr>])"
  by (simp_all add: wf_scripts_def update_first_names update_first_actives)

lemma wf_deactivate: "wf_scripts scs \<Longrightarrow> wf_scripts (deactivate scs)"
  by (simp add: wf_scripts_def)

lemma wf_activate:
  "wf_scripts scs \<Longrightarrow> wf_scripts (update_first n (\<lambda>sc. sc\<lparr>sc_active := True\<rparr>) (deactivate scs))"
  using length_actives_activate [of "deactivate scs" n]
  by (simp add: wf_scripts_def update_first_names)

lemma wf_remove: "wf_scripts scs \<Longrightarrow> wf_scripts (remove_first n scs)"
  using length_actives_remove [of n scs] by (simp add: wf_scripts_def remove_first_names)

lemma wf_rename:
  "wf_scripts scs \<Longrightarrow> new \<notin> set (names scs) \<Longrightarrow>
     wf_scripts (update_first old (\<lambda>sc. sc\<lparr>sc_name := new\<rparr>) scs)"
  by (simp add: wf_scripts_def rename_names update_first_actives)

section \<open>Well-formed stores\<close>

definition wf_account :: "int \<Rightarrow> account \<Rightarrow> bool" where
  "wf_account lim a \<longleftrightarrow> wf_scripts (acc_scripts a) \<and> (0 < lim \<longrightarrow> int (length (acc_scripts a)) \<le> lim)"

definition wf_store :: "Store \<Rightarrow> bool" where
  "wf_store s \<longleftrightarrow> (\<forall>u a. accounts s u = Some a \<longrightarrow> wf_account (MaxScripts s) a)"

definition wf_session :: "mem_session \<Rightarrow> bool" where
  "wf_session sess \<longleftrightarrow> wf_store (store sess)"

lemma authed_Inr: "authed sess = Inr a \<longleftrightarrow> accounts (store sess) (username sess) = Some a"
  by (auto simp: authed_def split: option.splits)

lemma authed_Inl: "authed sess = Inl e \<longleftrightarrow>
    accounts (store sess) (username sess) = None \<and> e = ErrCloseConnection"
  by (auto simp: authed_def split: option.splits)

lemma put_scripts_view:
  assumes "accounts (store sess) (username sess) = Some a"
  shows "accounts (store (put_scripts scs sess)) (username sess) = Some (a\<lparr>acc_scripts := scs\<rparr>)"
    "u \<noteq> username sess \<Longrightarrow> accounts (store (put_scripts scs sess)) u = accounts (store sess) u"
    "username (put_scripts scs sess) = username sess"
    "MaxScripts (store (put_scripts scs sess)) = MaxScripts (store sess)"
    "Validate (store (put_scripts scs sess)) = Validate (store sess)"
    "abs_session (put_scripts scs sess) = Some (abs_scripts scs)"
  using assms by (simp_all add: put_scripts_def set_scripts_def abs_session_def)

lemma wf_put_scripts:
  assumes "wf_session sess" "accounts (store sess) (username sess) = Some a" "wf_scripts scs"
    and "0 < MaxScripts (store sess) \<longrightarrow> int (length scs) \<le> MaxScripts (store sess)"
  shows "wf_session (put_scripts scs sess)"
  using assms put_scripts_view [OF assms(2)]
  unfolding wf_session_def wf_store_def wf_account_def
  by (metis account.select_convs(2) account.surjective account.update_convs(2) option.inject)

section \<open>Refinement of the abstract account\<close>

text \<open>The code of an error, as the client sees it, and the outcome of an operation.\<close>

definition err_code :: "goerr \<Rightarrow> string" where
  "err_code e = (case as_Error e of Some x \<Rightarrow> err_Code x | None \<Rightarrow> [])"

lemma err_code_coded [simp]: "err_code (coded cd msg) = cd" "err_code nonexistent = ''NONEXISTENT''"
  by (simp_all add: err_code_def coded_def nonexistent_def)

definition refines :: "(string + 'r \<times> abs_account) \<Rightarrow> (goerr + 'r) \<times> mem_session \<Rightarrow> mem_session \<Rightarrow> bool" where
  "refines spec impl sess \<longleftrightarrow>
     (case (spec, impl) of
        (Inl cd, (Inl e, sess')) \<Rightarrow> err_code e = cd \<and> sess' = sess
      | (Inr (r, v), (Inr r', sess')) \<Rightarrow> r = r' \<and> abs_session sess' = Some v \<and> wf_session sess'
          \<and> username sess' = username sess
          \<and> (\<forall>u. u \<noteq> username sess \<longrightarrow> accounts (store sess') u = accounts (store sess) u)
      | _ \<Rightarrow> False)"

text \<open>The operations that return only an error.\<close>

definition unit_result :: "goerr option \<times> mem_session \<Rightarrow> (goerr + unit) \<times> mem_session" where
  "unit_result r = (case r of (Some e, s) \<Rightarrow> (Inl e, s) | (None, s) \<Rightarrow> (Inr (), s))"

definition unit_spec :: "string + abs_account \<Rightarrow> string + unit \<times> abs_account" where
  "unit_spec r = (case r of Inl e \<Rightarrow> Inl e | Inr v \<Rightarrow> Inr ((), v))"

lemma wf_sessionD:
  assumes "wf_session sess" "accounts (store sess) (username sess) = Some a"
  shows "wf_scripts (acc_scripts a)"
    "0 < MaxScripts (store sess) \<Longrightarrow> int (length (acc_scripts a)) \<le> MaxScripts (store sess)"
  using assms by (auto simp: wf_session_def wf_store_def wf_account_def)

lemma refines_write:
  assumes "wf_session sess" "accounts (store sess) (username sess) = Some a" "wf_scripts scs"
    and "length scs \<le> length (acc_scripts a) \<or>
      (0 < MaxScripts (store sess) \<longrightarrow> int (length scs) \<le> MaxScripts (store sess))"
    and "abs_scripts scs = v"
  shows "refines (Inr (r, v)) (Inr r, put_scripts scs sess) sess"
proof -
  have "0 < MaxScripts (store sess) \<longrightarrow> int (length scs) \<le> MaxScripts (store sess)"
    using assms(4) wf_sessionD(2) [OF assms(1,2)] by auto
  from wf_put_scripts [OF assms(1-3) this] put_scripts_view [OF assms(2)] assms(5)
  show ?thesis by (simp add: refines_def)
qed

lemma abs_session_Some:
  "accounts (store sess) (username sess) = Some a \<Longrightarrow>
     abs_session sess = Some (contents (acc_scripts a), active_name (acc_scripts a))"
  by (simp add: abs_session_def abs_scripts_def)

lemma put_refines:
  assumes wf: "wf_session sess" and a: "accounts (store sess) (username sess) = Some a"
    and v: "run_validate upper content (store sess) = Inr w"
  shows "refines (case spec_put (MaxScripts (store sess)) name content (the (abs_session sess)) of
      Inl e \<Rightarrow> Inl e | Inr (b, v) \<Rightarrow> Inr ((b, w), v)) (PutScriptWarnings upper name content sess) sess"
proof -
  let ?scs = "acc_scripts a"
  note wfs = wf_sessionD [OF wf a]
  have au: "authed sess = Inr a" by (simp add: authed_Inr a)
  have card: "card (dom (contents ?scs)) = length ?scs"
    using wfs(1) by (simp add: card_dom_contents wf_scripts_def)
  show ?thesis
  proof (cases "name \<in> set (names ?scs)")
    case True
    then have "find_script name ?scs \<noteq> None" "contents ?scs name \<noteq> None"
      by (simp_all add: find_script_None contents_None)
    with True wfs show ?thesis
      by (auto simp: PutScriptWarnings_def v au abs_session_Some [OF a] abs_scripts_def
          contents_update find_active_update intro!: refines_write [OF wf a] wf_put)
  next
    case False
    then have f: "find_script name ?scs = None" "contents ?scs name = None"
      by (simp_all add: find_script_None contents_None)
    show ?thesis
    proof (cases "quota_full a (store sess)")
      case True
      with f v card show ?thesis
        by (simp add: PutScriptWarnings_def au abs_session_Some [OF a] quota_full_def refines_def)
    next
      case nq: False
      with f v card wfs show ?thesis
        by (auto simp: PutScriptWarnings_def au abs_session_Some [OF a] quota_full_def
            abs_scripts_def contents_append active_append False
            intro!: refines_write [OF wf a] wf_put(2))
    qed
  qed
qed

lemma delete_refines:
  assumes wf: "wf_session sess" and a: "accounts (store sess) (username sess) = Some a"
  shows "refines (unit_spec (spec_delete name (the (abs_session sess))))
    (unit_result (DeleteScript name sess)) sess"
proof (cases "find_script name (acc_scripts a)")
  case None
  then show ?thesis
    by (simp add: DeleteScript_def authed_Inr [THEN iffD2, OF a] abs_session_Some [OF a] contents_def
        unit_spec_def unit_result_def refines_def)
next
  case (Some sc)
  note wfs = wf_sessionD [OF wf a]
  note act = active_script [OF wfs(1) Some]
  show ?thesis
  proof (cases "sc_active sc")
    case True
    with Some act show ?thesis
      by (simp add: DeleteScript_def authed_Inr [THEN iffD2, OF a] abs_session_Some [OF a] contents_def
          unit_spec_def unit_result_def refines_def)
  next
    case False
    have d: "distinct (names (acc_scripts a))" using wfs by (simp add: wf_scripts_def)
    have "refines (Inr ((), (contents (acc_scripts a))(name := None), active_name (acc_scripts a)))
      (Inr (), put_scripts (remove_first name (acc_scripts a)) sess) sess"
      using act False length_remove_first [of name "acc_scripts a"]
      by (intro refines_write [OF wf a])
         (simp_all add: wf_remove wfs abs_scripts_def contents_remove d active_remove)
    with Some False act show ?thesis
      by (simp add: DeleteScript_def authed_Inr [THEN iffD2, OF a] abs_session_Some [OF a] contents_def
          unit_spec_def unit_result_def)
  qed
qed

lemma rename_refines:
  assumes wf: "wf_session sess" and a: "accounts (store sess) (username sess) = Some a"
  shows "refines (unit_spec (spec_rename old new (the (abs_session sess))))
    (unit_result (RenameScript old new sess)) sess"
proof (cases "find_script old (acc_scripts a) = None \<or> find_script new (acc_scripts a) \<noteq> None")
  case True
  then show ?thesis
    by (auto simp: RenameScript_def authed_Inr [THEN iffD2, OF a] abs_session_Some [OF a] contents_def
        unit_spec_def unit_result_def refines_def split: option.splits)
next
  case False
  note wfs = wf_sessionD [OF wf a]
  have d: "distinct (names (acc_scripts a))" using wfs by (simp add: wf_scripts_def)
  have m: "old \<in> set (names (acc_scripts a))" "new \<notin> set (names (acc_scripts a))"
    using False find_script_None by blast+
  have "refines (Inr ((), (contents (acc_scripts a))(old := None, new := contents (acc_scripts a) old),
      if active_name (acc_scripts a) = Some old then Some new else active_name (acc_scripts a)))
      (Inr (), put_scripts (update_first old (\<lambda>sc. sc\<lparr>sc_name := new\<rparr>) (acc_scripts a)) sess) sess"
    using m by (intro refines_write [OF wf a])
      (simp_all add: wf_rename wfs abs_scripts_def contents_rename d active_rename)
  moreover have "contents (acc_scripts a) old \<noteq> None" "contents (acc_scripts a) new = None"
    using m by (simp_all add: contents_None)
  ultimately show ?thesis using False
    by (auto simp: RenameScript_def authed_Inr [THEN iffD2, OF a] abs_session_Some [OF a]
        unit_spec_def unit_result_def split: option.splits)
qed

text \<open>An activation validates the stored content first; the validator's refusal is the answer.\<close>

lemma activate_rejected:
  assumes a: "accounts (store sess) (username sess) = Some a" and n: "name \<noteq> []"
    and c: "contents (acc_scripts a) name = Some c" and e: "run_validate upper c (store sess) = Inl e"
  shows "SetActive upper name sess = (Some e, sess)"
proof -
  obtain sc where "find_script name (acc_scripts a) = Some sc" "sc_content sc = c"
    using c by (auto simp: contents_def)
  with n e show ?thesis
    by (simp add: SetActive_def SetActive_snapshot_def authed_Inr [THEN iffD2, OF a])
qed

lemma activate_refines:
  assumes wf: "wf_session sess" and a: "accounts (store sess) (username sess) = Some a"
    and v: "\<And>c. name \<noteq> [] \<Longrightarrow> contents (acc_scripts a) name = Some c \<Longrightarrow> \<exists>w. run_validate upper c (store sess) = Inr w"
  shows "refines (unit_spec (spec_activate name (the (abs_session sess))))
    (unit_result (SetActive upper name sess)) sess"
proof -
  note wfs = wf_sessionD [OF wf a]
  note s = SetActive_def SetActive_none_def SetActive_snapshot_def SetActive_commit_def
    authed_Inr [THEN iffD2, OF a] abs_session_Some [OF a] unit_spec_def unit_result_def
  show ?thesis
  proof (cases "name = []")
    case True
    have "refines (Inr ((), contents (acc_scripts a), None))
      (Inr (), put_scripts (deactivate (acc_scripts a)) sess) sess"
      by (intro refines_write [OF wf a]) (simp_all add: wf_deactivate wfs abs_scripts_def)
    with True show ?thesis by (simp add: s)
  next
    case ne: False
    show ?thesis
    proof (cases "find_script name (acc_scripts a)")
      case None
      with ne show ?thesis by (simp add: s contents_def refines_def)
    next
      case (Some sc)
      then have c: "contents (acc_scripts a) name = Some (sc_content sc)" by (simp add: contents_def)
      then have m: "name \<in> set (names (acc_scripts a))" by (metis contents_None option.distinct(1))
      obtain w where w: "run_validate upper (sc_content sc) (store sess) = Inr w" using v [OF ne c] by blast
      have "refines (Inr ((), contents (acc_scripts a), Some name)) (Inr (), put_scripts
          (update_first name (\<lambda>sc. sc\<lparr>sc_active := True\<rparr>) (deactivate (acc_scripts a))) sess) sess"
        using m by (intro refines_write [OF wf a])
          (simp_all add: wf_activate wfs abs_scripts_def active_activate)
      with ne Some c w show ?thesis by (simp add: s)
    qed
  qed
qed

lemma activate_branches:
  fixes upper :: "nat \<Rightarrow> nat" and name :: string
  assumes wf: "wf_session sess" and a: "accounts (store sess) (username sess) = Some a"
  defines "good \<equiv> refines (unit_spec (spec_activate name (the (abs_session sess))))
      (unit_result (SetActive upper name sess)) sess"
  shows "case if name = [] then None else contents (acc_scripts a) name of
      None \<Rightarrow> good
    | Some c \<Rightarrow> (case run_validate upper c (store sess) of
        Inl e \<Rightarrow> SetActive upper name sess = (Some e, sess)
      | Inr w \<Rightarrow> good)"
proof (cases "\<exists>c e. name \<noteq> [] \<and> contents (acc_scripts a) name = Some c \<and> run_validate upper c (store sess) = Inl e")
  case True
  then show ?thesis by (auto simp: activate_rejected [OF a])
next
  case False
  then have good unfolding good_def
    by (intro activate_refines [OF wf a]) (metis obj_sumE)
  with False show ?thesis by (auto split: option.splits sum.splits)
qed

end
