(* ===== verification/MemRuns.thy ===== *)
theory MemRuns
  imports MemStore
begin

text \<open>
  The in-memory store under several sessions. Every operation takes the store's lock once and is one
  step, but \<open>SetActive\<close>, which validates between two of them: other sessions' steps may come in between.
  Then the properties of the store.
\<close>

section \<open>Interleaved operations\<close>

abbreviation sess_of :: "Store \<Rightarrow> string \<Rightarrow> mem_session" where
  "sess_of s u \<equiv> \<lparr>store = s, username = u\<rparr>"

text \<open>The second component holds the activations whose content was validated and that wait for the
  lock: user and script name.\<close>

inductive mem_step :: "(nat \<Rightarrow> nat) \<Rightarrow> Store \<times> (string \<times> string) list
    \<Rightarrow> Store \<times> (string \<times> string) list \<Rightarrow> bool" for upper where
  put: "PutScriptWarnings upper n c (sess_of s u) = (r, sess) \<Longrightarrow> mem_step upper (s, P) (store sess, P)"
| delete: "DeleteScript n (sess_of s u) = (r, sess) \<Longrightarrow> mem_step upper (s, P) (store sess, P)"
| rename: "RenameScript old new (sess_of s u) = (r, sess) \<Longrightarrow> mem_step upper (s, P) (store sess, P)"
| deactivate: "SetActive_none (sess_of s u) = (r, sess) \<Longrightarrow> mem_step upper (s, P) (store sess, P)"
| snapshot: "SetActive_snapshot n (sess_of s u) = Inr c \<Longrightarrow> run_validate upper c s = Inr w \<Longrightarrow>
    mem_step upper (s, P) (s, (u, n) # P)"
| commit: "(u, n) \<in> set P \<Longrightarrow> SetActive_commit n (sess_of s u) = (r, sess) \<Longrightarrow>
    mem_step upper (s, P) (store sess, remove1 (u, n) P)"

inductive_cases mem_stepE: "mem_step upper (s, P) (s', P')"

text \<open>A content the host's hook accepts, and the stores that hold nothing else.\<close>

definition valid_content :: "(nat \<Rightarrow> nat) \<Rightarrow> Store \<Rightarrow> string \<Rightarrow> bool" where
  "valid_content upper s c \<longleftrightarrow> (\<exists>w. run_validate upper c s = Inr w)"

definition all_valid :: "(nat \<Rightarrow> nat) \<Rightarrow> Store \<Rightarrow> bool" where
  "all_valid upper s \<longleftrightarrow>
     (\<forall>u a. accounts s u = Some a \<longrightarrow> (\<forall>sc\<in>set (acc_scripts a). valid_content upper s (sc_content sc)))"

lemma valid_cong: "Validate s' = Validate s \<Longrightarrow> valid_content upper s' = valid_content upper s"
  by (simp add: fun_eq_iff valid_content_def run_validate_def)

lemma set_update_first: "x \<in> set (update_first n f scs) \<Longrightarrow> x \<in> set scs \<or> (\<exists>y\<in>set scs. x = f y)"
  by (induction scs) (auto split: if_splits)

lemma set_remove_first: "x \<in> set (remove_first n scs) \<Longrightarrow> x \<in> set scs"
  by (induction scs) (auto split: if_splits)

lemma set_deactivate: "sc \<in> set (deactivate scs) \<Longrightarrow> \<exists>x\<in>set scs. sc_content sc = sc_content x"
  by (auto simp: deactivate_def)

text \<open>What every write of an operation looks like: a well-formed list whose contents are among the old
  ones, but for a content that was validated.\<close>

definition good_write :: "(nat \<Rightarrow> nat) \<Rightarrow> mem_session \<Rightarrow> account \<Rightarrow> script list \<Rightarrow> bool" where
  "good_write upper sess a scs \<longleftrightarrow> (wf_scripts (acc_scripts a) \<longrightarrow> wf_scripts scs)
     \<and> (length scs \<le> length (acc_scripts a) \<or>
        (0 < MaxScripts (store sess) \<longrightarrow> int (length scs) \<le> MaxScripts (store sess)))
     \<and> (\<forall>sc\<in>set scs. (\<exists>x\<in>set (acc_scripts a). sc_content sc = sc_content x)
          \<or> valid_content upper (store sess) (sc_content sc))"

definition writes :: "(nat \<Rightarrow> nat) \<Rightarrow> mem_session \<Rightarrow> mem_session \<Rightarrow> bool" where
  "writes upper sess sess' \<longleftrightarrow> sess' = sess
     \<or> (\<exists>a scs. accounts (store sess) (username sess) = Some a \<and> good_write upper sess a scs
          \<and> sess' = put_scripts scs sess)"

lemma good_update:
  assumes "\<And>sc. sc_name (f sc) = sc_name sc" "\<And>sc. sc_active (f sc) = sc_active sc"
    "\<And>sc. sc_content (f sc) = sc_content sc \<or> valid_content upper (store sess) (sc_content (f sc))"
  shows "good_write upper sess a (update_first n f (acc_scripts a))"
proof -
  have "\<forall>sc\<in>set (update_first n f (acc_scripts a)).
      (\<exists>x\<in>set (acc_scripts a). sc_content sc = sc_content x) \<or> valid_content upper (store sess) (sc_content sc)"
    using assms(3) by (blast dest: set_update_first)
  then show ?thesis
    by (simp add: good_write_def wf_scripts_def update_first_names assms(1,2) update_first_actives)
qed

lemma writes_put:
  assumes "PutScriptWarnings upper n c sess = (r, sess')" shows "writes upper sess sess'"
proof (cases "\<exists>w a. run_validate upper c (store sess) = Inr w \<and> authed sess = Inr a")
  case False
  with assms show ?thesis by (auto simp: PutScriptWarnings_def writes_def split: sum.splits)
next
  case True
  then obtain w a where v: "run_validate upper c (store sess) = Inr w" and a: "authed sess = Inr a" by blast
  have vc: "valid_content upper (store sess) c" using v by (auto simp: valid_content_def)
  have 1: "good_write upper sess a (update_first n (\<lambda>sc. sc\<lparr>sc_content := c\<rparr>) (acc_scripts a))"
    by (rule good_update) (simp_all add: vc)
  have 2: "good_write upper sess a (acc_scripts a @ [\<lparr>sc_name = n, sc_content = c, sc_active = False\<rparr>])"
    if "find_script n (acc_scripts a) = None" "\<not> quota_full a (store sess)"
    using that vc by (auto simp: good_write_def quota_full_def find_script_None intro: wf_put(2))
  show ?thesis using assms v a 1 2 by (auto simp: PutScriptWarnings_def writes_def authed_Inr split: if_splits)
qed

lemma good_delete: "good_write upper sess a (remove_first n (acc_scripts a))"
  by (auto simp: good_write_def length_remove_first intro: wf_remove dest: set_remove_first)

lemma writes_delete: "DeleteScript n sess = (r, sess') \<Longrightarrow> writes upper sess sess'"
  by (auto simp: DeleteScript_def writes_def authed_Inr intro: good_delete
      split: sum.splits option.splits if_splits)

lemma writes_rename:
  assumes "RenameScript old new sess = (r, sess')" shows "writes upper sess sess'"
proof -
  have "\<forall>sc\<in>set (update_first old (\<lambda>sc. sc\<lparr>sc_name := new\<rparr>) scs). \<exists>x\<in>set scs. sc_content sc = sc_content x"
    for scs by (induction scs) auto
  then have "good_write upper sess a (update_first old (\<lambda>sc. sc\<lparr>sc_name := new\<rparr>) (acc_scripts a))"
    if "find_script new (acc_scripts a) = None" for a
    using that by (auto simp: good_write_def find_script_None intro: wf_rename)
  with assms show ?thesis
    by (auto simp: RenameScript_def writes_def authed_Inr split: sum.splits option.splits if_splits)
qed

lemma good_deactivate: "good_write upper sess a (deactivate (acc_scripts a))"
  by (auto simp: good_write_def intro: wf_deactivate dest: set_deactivate)

lemma writes_deactivate: "SetActive_none sess = (r, sess') \<Longrightarrow> writes upper sess sess'"
  by (auto simp: SetActive_none_def writes_def authed_Inr intro: good_deactivate split: sum.splits)

lemma good_activate:
  "good_write upper sess a (update_first n (\<lambda>sc. sc\<lparr>sc_active := True\<rparr>) (deactivate (acc_scripts a)))"
proof -
  have "\<exists>x\<in>set (acc_scripts a). sc_content sc = sc_content x"
    if "sc \<in> set (update_first n (\<lambda>sc. sc\<lparr>sc_active := True\<rparr>) (deactivate (acc_scripts a)))" for sc
    using set_update_first [OF that] by (auto dest: set_deactivate)
  then show ?thesis by (simp add: good_write_def wf_activate)
qed

lemma writes_commit: "SetActive_commit n sess = (r, sess') \<Longrightarrow> writes upper sess sess'"
  by (auto simp: SetActive_commit_def writes_def authed_Inr intro: good_activate
      split: sum.splits option.splits)

lemma writes_keep:
  assumes "writes upper sess sess'" "wf_session sess" "all_valid upper (store sess)"
  shows "wf_session sess' \<and> all_valid upper (store sess')"
proof (cases "sess' = sess")
  case False
  with assms(1) obtain a scs where a: "accounts (store sess) (username sess) = Some a"
    and g: "good_write upper sess a scs" and s': "sess' = put_scripts scs sess"
    by (auto simp: writes_def)
  note wfs = wf_sessionD [OF assms(2) a]
  have "wf_session sess'" unfolding s'
    using g wfs by (intro wf_put_scripts [OF assms(2) a]) (auto simp: good_write_def)
  moreover have "all_valid upper (store sess')" unfolding all_valid_def s'
  proof (intro allI impI)
    fix u b assume b: "accounts (store (put_scripts scs sess)) u = Some b"
    have val: "valid_content upper (store (put_scripts scs sess)) = valid_content upper (store sess)"
      by (rule valid_cong) (rule put_scripts_view(5) [OF a])
    show "\<forall>sc\<in>set (acc_scripts b). valid_content upper (store (put_scripts scs sess)) (sc_content sc)"
    proof (cases "u = username sess")
      case True
      with b put_scripts_view(1) [OF a, of scs] have "acc_scripts b = scs" by auto
      with g assms(3) a show ?thesis unfolding val good_write_def all_valid_def by metis
    next
      case False
      with b put_scripts_view(2) [OF a] assms(3) show ?thesis unfolding val all_valid_def by metis
    qed
  qed
  ultimately show ?thesis by simp
qed (use assms in simp)

lemma mem_step_keep:
  assumes "mem_step upper x y" "wf_store (fst x)" "all_valid upper (fst x)"
  shows "wf_store (fst y) \<and> all_valid upper (fst y)"
  using assms
proof (induction rule: mem_step.induct)
  case (put n c s u r sess P)
  with writes_keep [OF writes_put [OF put(1)]] show ?case by (simp add: wf_session_def)
next
  case (delete n s u r sess P)
  with writes_keep [OF writes_delete [OF delete(1)]] show ?case by (simp add: wf_session_def)
next
  case (rename old new s u r sess P)
  with writes_keep [OF writes_rename [OF rename(1)]] show ?case by (simp add: wf_session_def)
next
  case (deactivate s u r sess P)
  with writes_keep [OF writes_deactivate [OF deactivate(1)]] show ?case by (simp add: wf_session_def)
next
  case (commit u n P s r sess)
  with writes_keep [OF writes_commit [OF commit(2)]] show ?case by (simp add: wf_session_def)
qed simp

section \<open>Properties\<close>

text \<open>A store with one user and two scripts, the second active, at most two scripts allowed; contents
  are valid unless they start with an exclamation mark.\<close>

definition sample_validate :: "string \<Rightarrow> goerr + string" where
  "sample_validate c = (if take 1 c = ''!'' then Inl (PlainErr ''bad'') else Inr [])"

definition sample_store :: Store where
  "sample_store = snd (AddScript ''u'' ''b'' ''stop;'' True (snd (AddScript ''u'' ''a'' ''keep;'' False
     (AddUser id ''u'' ''pw'' (New\<lparr>MaxScripts := 2, Validate := Some sample_validate\<rparr>)))))"

definition sample_account :: account where
  "sample_account = \<lparr>acc_password = ''pw'', acc_scripts =
     [\<lparr>sc_name = ''a'', sc_content = ''keep;'', sc_active = False\<rparr>,
      \<lparr>sc_name = ''b'', sc_content = ''stop;'', sc_active = True\<rparr>]\<rparr>"

lemma sample_store_eq:
  "sample_store = \<lparr>MaxScripts = 2, Validate = Some sample_validate,
     accounts = [''u'' \<mapsto> sample_account]\<rparr>"
  by (simp add: sample_store_def sample_account_def AddScript_def AddUser_def New_def Let_def
      set_scripts_def deactivate_def)

lemma sample_store_wf: "wf_store sample_store"
  by (simp add: sample_store_eq wf_store_def wf_account_def wf_scripts_def sample_account_def)

lemma sample_store_valid: "all_valid upper sample_store"
  by (simp add: sample_store_eq all_valid_def sample_account_def valid_content_def run_validate_def
      sample_validate_def)

text \<open>C24. PUTSCRIPT on the in-memory store does what the abstract account says: with a content the host
  accepts it replaces the script of that name, reporting an update and keeping its activation, or adds
  it, or refuses with QUOTA/MAXSCRIPTS exactly when the name is new and the account full; other accounts
  do not change, and a content the host rejects changes nothing.\<close>

theorem mem_put_refines:
  assumes "wf_session sess" and "accounts (store sess) (username sess) = Some a"
  shows "case run_validate upper content (store sess) of
      Inl e \<Rightarrow> PutScriptWarnings upper name content sess = (Inl e, sess)
    | Inr w \<Rightarrow> refines
        (case spec_put (MaxScripts (store sess)) name content (the (abs_session sess)) of
           Inl e \<Rightarrow> Inl e | Inr (b, v) \<Rightarrow> Inr ((b, w), v))
        (PutScriptWarnings upper name content sess) sess"
  using put_refines [OF assms] by (auto simp: PutScriptWarnings_def split: sum.splits)

theorem mem_put_refines_witness:
  "refines (Inl ''QUOTA/MAXSCRIPTS'') (PutScriptWarnings id ''c'' ''keep;'' (sess_of sample_store ''u''))
     (sess_of sample_store ''u'')"
proof -
  have "wf_session (sess_of sample_store ''u'')" by (simp add: wf_session_def sample_store_wf)
  moreover have "accounts (store (sess_of sample_store ''u'')) (username (sess_of sample_store ''u''))
      = Some sample_account" by (simp add: sample_store_eq)
  moreover have "card (dom (contents (acc_scripts sample_account))) = 2"
    by (subst card_dom_contents) (simp_all add: sample_account_def)
  ultimately show ?thesis
    using mem_put_refines [of "sess_of sample_store ''u''" sample_account, where upper = id
        and content = "''keep;''" and name = "''c''"]
    by (simp add: run_validate_def sample_store_eq sample_validate_def abs_session_def abs_scripts_def
        contents_def) (simp add: sample_account_def)
qed

text \<open>C25. DELETESCRIPT, RENAMESCRIPT and SETACTIVE on the in-memory store do what the abstract account
  says: the active script is never deleted, a rename keeps content and activation and refuses a taken
  name, activation moves to exactly the named script, and the empty name deactivates; the refusals carry
  the response codes of the specification and change nothing. A stored script the host's validator now
  rejects is not activated: SETACTIVE answers with the validator's error and changes nothing.\<close>

theorem mem_update_refines:
  assumes "wf_session sess" and "accounts (store sess) (username sess) = Some a"
  shows "refines (unit_spec (spec_delete name (the (abs_session sess)))) (unit_result (DeleteScript name sess)) sess
    \<and> refines (unit_spec (spec_rename name new (the (abs_session sess))))
        (unit_result (RenameScript name new sess)) sess
    \<and> (case if name = [] then None else contents (acc_scripts a) name of
         None \<Rightarrow> refines (unit_spec (spec_activate name (the (abs_session sess))))
           (unit_result (SetActive upper name sess)) sess
       | Some c \<Rightarrow> (case run_validate upper c (store sess) of
           Inl e \<Rightarrow> SetActive upper name sess = (Some e, sess)
         | Inr w \<Rightarrow> refines (unit_spec (spec_activate name (the (abs_session sess))))
             (unit_result (SetActive upper name sess)) sess))"
  using delete_refines [OF assms] rename_refines [OF assms] activate_branches [OF assms] by blast

theorem mem_update_refines_witness:
  "refines (Inl ''ACTIVE'') (unit_result (DeleteScript ''b'' (sess_of sample_store ''u'')))
     (sess_of sample_store ''u'')
   \<and> abs_session (snd (SetActive id ''a'' (sess_of sample_store ''u''))) =
       Some (contents (acc_scripts sample_account), Some ''a'')
   \<and> fst (SetActive id ''a'' (sess_of (sample_store\<lparr>Validate := Some (\<lambda>c. Inl (PlainErr ''no''))\<rparr>) ''u''))
       = Some (wrapValidationError id (PlainErr ''no''))"
proof -
  let ?s = "sess_of sample_store ''u''"
  have a: "accounts (store ?s) (username ?s) = Some sample_account" by (simp add: sample_store_eq)
  have w: "wf_session ?s" by (simp add: wf_session_def sample_store_wf)
  let ?t = "sess_of (sample_store\<lparr>Validate := Some (\<lambda>c. Inl (PlainErr ''no''))\<rparr>) ''u''"
  have v: "contents (acc_scripts sample_account) ''a'' = Some ''keep;''"
      "run_validate id ''keep;'' (store ?s) = Inr []"
      "run_validate id ''keep;'' (store ?t) = Inl (wrapValidationError id (PlainErr ''no''))"
    by (simp_all add: contents_def sample_account_def run_validate_def sample_store_eq sample_validate_def)
  have t: "accounts (store ?t) (username ?t) = Some sample_account" "wf_session ?t"
    using a w by (simp_all add: wf_session_def wf_store_def)
  have rejected: "SetActive id ''a'' ?t = (Some (wrapValidationError id (PlainErr ''no'')), ?t)"
    using mem_update_refines [OF t(2,1), of "''a''" "[]" id] v(1,3) by simp
  have ab: "abs_session ?s = Some (contents (acc_scripts sample_account), Some ''b'')"
    by (simp add: abs_session_def abs_scripts_def sample_store_eq active_name_def)
       (simp add: sample_account_def)
  have c: "contents (acc_scripts sample_account) ''a'' \<noteq> None" "contents (acc_scripts sample_account) ''b'' \<noteq> None"
    by (simp_all add: contents_def sample_account_def)
  obtain e s' where r: "SetActive id ''a'' ?s = (e, s')" by (cases "SetActive id ''a'' ?s")
  show ?thesis
    using mem_update_refines [OF w a, of "''b''" "[]" id] mem_update_refines [OF w a, of "''a''" "[]" id] v(1,2) ab c r rejected
    by (auto simp: unit_spec_def unit_result_def refines_def split: option.splits)
qed

text \<open>C27. HAVESPACE tells the truth: on the same store it answers OK exactly when PUTSCRIPT of a valid
  content under that name would be accepted.\<close>

theorem mem_havespace_honest:
  assumes "accounts (store sess) (username sess) = Some a" and "valid_content upper (store sess) content"
  shows "fst (HaveSpace name n sess) = None \<longleftrightarrow> (\<exists>r. fst (PutScriptWarnings upper name content sess) = Inr r)"
  using assms
  by (auto simp: HaveSpace_def PutScriptWarnings_def valid_content_def authed_Inr [THEN iffD2, OF assms(1)]
      quota_full_def split: option.splits)

theorem mem_havespace_honest_witness:
  "fst (HaveSpace ''c'' 5 (sess_of sample_store ''u'')) = None \<longleftrightarrow>
     (\<exists>r. fst (PutScriptWarnings id ''c'' ''keep;'' (sess_of sample_store ''u'')) = Inr r)"
  by (rule mem_havespace_honest [of _ sample_account])
     (simp_all add: sample_store_eq valid_content_def run_validate_def sample_validate_def)

text \<open>C23. Under any interleaving of the sessions' operations, with activations whose validation and commit
  are separated by steps of other sessions, every account keeps distinct names, at most one active script
  and its script quota; when every stored content was valid, every stored content stays valid, so what
  is active is always a content the host accepts.\<close>

theorem mem_interleaving_safe:
  assumes "(mem_step upper)\<^sup>*\<^sup>* (s, P) (s', P')" and "wf_store s" and "all_valid upper s"
  shows "wf_store s' \<and> all_valid upper s'"
proof -
  have "wf_store (fst y) \<and> all_valid upper (fst y)"
    if "(mem_step upper)\<^sup>*\<^sup>* x y" "wf_store (fst x)" "all_valid upper (fst x)" for x y
    using that by (induction rule: rtranclp_induct) (auto dest: mem_step_keep)
  from this [OF assms(1)] assms(2,3) show ?thesis by simp
qed

theorem mem_interleaving_safe_witness:
  "\<exists>s'. (mem_step id)\<^sup>*\<^sup>* (sample_store, []) (s', [(''u'', ''a'')]) \<and> wf_store s' \<and> all_valid id s'"
proof -
  have "mem_step id (sample_store, []) (sample_store, [(''u'', ''a'')])"
    by (rule mem_step.snapshot [of _ _ _ "''keep;''" _ "[]"])
       (simp_all add: SetActive_snapshot_def authed_def sample_store_eq sample_account_def
         run_validate_def sample_validate_def)
  then have "(mem_step id)\<^sup>*\<^sup>* (sample_store, []) (sample_store, [(''u'', ''a'')])" by simp
  with mem_interleaving_safe [OF this sample_store_wf sample_store_valid] show ?thesis by blast
qed

text \<open>C39. The window between the validation and the activation is not harmless for every store: with one
  seeded script the host would reject, an activation of a valid script, overtaken by a delete and a
  rename, ends with the rejected content active although no activation of it was ever validated.\<close>

definition seeded_store :: Store where
  "seeded_store = snd (AddScript ''u'' ''x'' ''!'' False (snd (AddScript ''u'' ''a'' ''keep;'' False
     (AddUser id ''u'' ''pw'' (New\<lparr>Validate := Some sample_validate\<rparr>)))))"

theorem mem_activation_window:
  "\<exists>s'. (mem_step id)\<^sup>*\<^sup>* (seeded_store, []) (s', [])
     \<and> (\<exists>a. accounts s' ''u'' = Some a \<and>
          (\<exists>sc\<in>set (acc_scripts a). sc_active sc \<and> \<not> valid_content id s' (sc_content sc)))
     \<and> fst (SetActive id ''x'' (sess_of seeded_store ''u'')) \<noteq> None"
proof -
  let ?x = "\<lparr>sc_name = ''x'', sc_content = ''!'', sc_active = False\<rparr>"
  let ?a = "\<lparr>sc_name = ''a'', sc_content = ''keep;'', sc_active = False\<rparr>"
  let ?st = "\<lambda>scs. \<lparr>MaxScripts = 0, Validate = Some sample_validate,
      accounts = [''u'' \<mapsto> \<lparr>acc_password = ''pw'', acc_scripts = scs\<rparr>]\<rparr>"
  note d = SetActive_snapshot_def SetActive_commit_def DeleteScript_def RenameScript_def authed_def
    put_scripts_def set_scripts_def run_validate_def sample_validate_def deactivate_def
  have s0: "seeded_store = ?st [?a, ?x]"
    by (simp add: seeded_store_def AddScript_def AddUser_def New_def Let_def set_scripts_def)
  have 1: "mem_step id (?st [?a, ?x], []) (?st [?a, ?x], [(''u'', ''a'')])"
    by (rule mem_step.snapshot [of _ _ _ "''keep;''" _ "[]"]) (simp_all add: d)
  have 2: "mem_step id (?st [?a, ?x], [(''u'', ''a'')]) (?st [?x], [(''u'', ''a'')])"
    using mem_step.delete [of "''a''" "?st [?a, ?x]" "''u''" None "sess_of (?st [?x]) ''u''" id]
    by (simp add: d)
  have 3: "mem_step id (?st [?x], [(''u'', ''a'')]) (?st [?x\<lparr>sc_name := ''a''\<rparr>], [(''u'', ''a'')])"
    using mem_step.rename [of "''x''" "''a''" "?st [?x]" "''u''" None
        "sess_of (?st [?x\<lparr>sc_name := ''a''\<rparr>]) ''u''" id]
    by (simp add: d)
  have 4: "mem_step id (?st [?x\<lparr>sc_name := ''a''\<rparr>], [(''u'', ''a'')])
      (?st [?x\<lparr>sc_name := ''a'', sc_active := True\<rparr>], [])"
    using mem_step.commit [of "''u''" "''a''" "[(''u'', ''a'')]" "?st [?x\<lparr>sc_name := ''a''\<rparr>]" None
        "sess_of (?st [?x\<lparr>sc_name := ''a'', sc_active := True\<rparr>]) ''u''" id]
    by (simp add: d)
  have "(mem_step id)\<^sup>*\<^sup>* (seeded_store, []) (?st [?x\<lparr>sc_name := ''a'', sc_active := True\<rparr>], [])"
    unfolding s0 using 1 2 3 4 by (meson converse_rtranclp_into_rtranclp r_into_rtranclp)
  moreover have "\<not> valid_content id (?st scs) ''!''" for scs
    by (simp add: valid_content_def run_validate_def sample_validate_def)
  moreover have "fst (SetActive id ''x'' (sess_of seeded_store ''u'')) \<noteq> None"
    by (simp add: s0 SetActive_def d)
  ultimately show ?thesis by fastforce
qed

text \<open>A login succeeds exactly for a known user with the password's hash (and, for PLAIN, an empty
  authorization identity or the user's own); success only sets the session's user, and a failure changes
  nothing and says the same whether the user is unknown or the password wrong.\<close>

lemma mem_login_exact:
  "AuthenticatePlain sha256 identity user password sess =
     (if (identity = [] \<or> identity = user)
         \<and> (\<exists>a. accounts (store sess) user = Some a \<and> acc_password a = sha256 password)
      then (None, sess\<lparr>username := user\<rparr>) else (Some errAuthFailed, sess))"
  by (auto simp: AuthenticatePlain_def login_def Let_def split: option.splits)

end
