(* ===== verification/Samples.thy ===== *)
theory Samples
  imports Serve MemRuns "HOL-Library.Code_Target_Numeral"
begin

text \<open>
  Concrete connections for the witnesses: the server with the in-memory store behind it, a client that
  writes one script of bytes, and options that allow authentication without TLS. The runs are evaluated
  on these definitions.
\<close>

declare serve_loop.simps [code]

definition zero_opts :: Options where
  "zero_opts = \<lparr>TLSConfig = True, Implementation = [], Greeting = [], GreetingStartTLSHint = False,
     SieveExtensions = [''fileinto''], ExtraCapabilities = [], MaxScriptSize = 100, MaxLineLength = 0,
     MaxAuthLiteral = 0, IdleTimeout = 0, AuthIdleTimeout = 0, AbsoluteSessionTimeout = 0,
     CommandTimeout = 0, WriteTimeout = 0, InsecureAuth = False, MaxErrors = 2,
     AuthFailuresExemptFromMaxErrors = False, ErrorDelay = 0, MaxErrorDelay = 0,
     StrictSessionErrors = False, RejectMessage = [], OnCommand = False, OnTimeout = True\<rparr>"

definition sample_opts :: Options where
  "sample_opts = defaults (zero_opts\<lparr>InsecureAuth := True\<rparr>)"

definition env_of :: "Options \<Rightarrow> mem_session env" where
  "env_of opt = \<lparr>opts = opt, ops = mem_ops id id, UnknownCommandHandler = None, up = id\<rparr>"

definition sample_env :: "mem_session env" where
  "sample_env = env_of sample_opts"

definition sample_conn :: "net_ev list \<Rightarrow> mem_session conn" where
  "sample_conn es = with_session (sess_of sample_store [])
     (fresh_conn sample_env PlainConn False es Accepts 0 0)"

text \<open>Lines of text, each with its CRLF.\<close>

definition lines :: "string list \<Rightarrow> net_ev list" where
  "lines ls = [Data (concat (map (\<lambda>l. l @ CRLF) ls))]"

lemma sample_fresh: "fresh (sample_conn es)"
  by (simp add: fresh_def sample_conn_def with_session_def fresh_conn_def)

lemma sample_live: "live sample_env (sample_conn es)"
  by (simp add: live_def guarded_def armed_def sample_env_def env_of_def sample_conn_def
      with_session_def fresh_conn_def sample_opts_def defaults_def zero_opts_def Let_def
      defaultMaxLineLength_def defaultMaxAuthLiteral_def defaultWriteTimeout_def seconds_def)

text \<open>A login, a listing, a line that is no command, and LOGOUT.\<close>

definition sample_run :: "net_ev list" where
  "sample_run = lines [''LOGIN u pw'', ''LISTSCRIPTS'', ''FROB'', ''LOGOUT'']"

lemma sample_run_trace:
  "map_option (\<lambda>c. (trace c, errorCount c, hijacked c)) (serve sample_env (sample_conn sample_run)) =
     Some ([OLogin ''u'' ''pw'' True, OScript KListScripts, OSessionClose, ONetClose], 1, False)"
  by code_simp

end
