(* ===== verification/Serving.thy ===== *)
theory Serving
  imports Samples
begin

text \<open>
  What the server promises of a whole connection: that it refines the state machine of \<open>Protocol\<close>, what
  follows from that for authentication, scripts and teardown, that it returns, and the limits on errors.
  Then the authentication gate, hijacking and rejected connections.
\<close>

section \<open>Lemmas on whole runs\<close>


lemma returns_map [simp]: "returns (map_option f m) \<longleftrightarrow> returns m"
  by (simp add: returns_def)











text \<open>The number of counted errors stays below the limit while the loop goes on.\<close>

definition below_limit :: "'s env \<Rightarrow> 's conn \<Rightarrow> bool" where
  "below_limit env c \<longleftrightarrow> \<not> maxErrorsExceeded env c"

lemma end_turn_limit:
  assumes "end_turn env q c = Some (True, c')"
  shows "below_limit env c' \<and> errorCount c' = errorCount c"
  using assms io_step_fields(5) [OF io_step_Flush]
  by (fastforce simp: end_turn_def Let_def bind_Some_iff below_limit_def maxErrorsExceeded_def
      split: if_splits)

lemma turn_limit:
  assumes "serve_turn env c = Some (True, c')" "below_limit env c"
  shows "below_limit env c'"
  using assms(1)
proof (cases rule: serve_turn_cases)
  case (line l c1 q c2)
  show ?thesis
  proof (cases q)
    case None
    then have "c2 = c1" using line(3)
      by (auto simp: execute_def Let_def bind_Some_iff split: if_splits prod.splits sum.splits option.splits)
    with line None assms(2) io_step_fields(5) [OF io_readLine_arm [OF line(2)]] show ?thesis
      by (simp add: below_limit_def maxErrorsExceeded_def)
  next
    case (Some b)
    with line end_turn_limit show ?thesis by fastforce
  qed
qed simp_all

lemma farewell_count: "farewell l c = Some c' \<Longrightarrow> errorCount c' = errorCount c"
  using io_step_fields(5) [OF io_step_Flush] by (fastforce simp: farewell_def)

lemma end_timeout_count: "end_timeout env m k c = Some c' \<Longrightarrow> errorCount c' = errorCount c"
  by (auto simp: end_timeout_def report_timeout_def dest: farewell_count split: if_splits)

lemma read_failed_count: "read_failed env e c = Some c' \<Longrightarrow> errorCount c' = errorCount c"
  by (auto simp: read_failed_def shutdownBye_def dest: farewell_count end_timeout_count split: if_splits)

lemma turn_count:
  assumes "serve_turn env c = Some (cont, c')" "\<not> hijacked c"
  shows "errorCount c' \<le> errorCount c + 1"
  using assms(1)
proof (cases rule: serve_turn_cases)
  case shutdown
  then show ?thesis
    by (auto simp: shutdownBye_def dest: farewell_count end_timeout_count split: if_splits)
next
  case (failed e c1)
  with read_failed_count [OF failed(3)] io_step_fields(5) [OF io_readLine_arm [OF failed(2)]]
  show ?thesis by simp
next
  case (line l c1 q c2)
  have n1: "\<not> hijacked c1" using io_step_fields(3) [OF io_readLine_arm [OF line(2)]] assms(2) by simp
  have "errorCount c2 \<le> errorCount c1 + 1" using hstepD(7) [OF hstep_execute [OF line(3) n1]] by simp
  moreover have "errorCount c' = errorCount c2"
  proof (cases q)
    case (Some b)
    with line(4) have "end_turn env b c2 = Some (cont, c')" by simp
    from hstepD(6,7) [OF hstep_end_turn [OF this]] show ?thesis by simp
  qed (use line(4) in simp)
  ultimately show ?thesis using io_step_fields(5) [OF io_readLine_arm [OF line(2)]] by simp
qed












lemma greeting_queued: "werr c = None \<Longrightarrow> wbuf (sendGreeting env c) \<noteq> []"
  by (simp add: sendGreeting_def Let_def writeLine_def WriteString_def)




section \<open>Properties of a whole connection\<close>

text \<open>C1. The server refines the protocol's state machine: the calls into the application and the hooks
  of a whole connection, whatever the client sends, the socket does and the application answers, are a
  run of the machine from the non-authenticated state to the closed one, or, when the session took the
  connection over, to the closed session.\<close>

theorem serve_refines_protocol:
  assumes "fresh c" and "serve env c = Some c'"
  shows "rfc_run NonAuthenticated (trace c') (if hijacked c' then SessionClosed else Closed)"
  using serve_trace [OF assms(2,1)] by auto

theorem serve_refines_protocol_witness:
  "\<exists>c'. serve sample_env (sample_conn sample_run) = Some c' \<and> rfc_run NonAuthenticated (trace c') Closed"
proof -
  obtain c' where c': "serve sample_env (sample_conn sample_run) = Some c'" "\<not> hijacked c'"
    using sample_run_trace by auto
  from serve_refines_protocol [OF sample_fresh c'(1)] c' show ?thesis by auto
qed

text \<open>C2. No script operation of the session is called before an authentication has succeeded on the same
  connection.\<close>

theorem scripts_need_authentication:
  assumes "fresh c" and "serve env c = Some c'" and "trace c' = es @ OScript k # fs"
  shows "\<exists>e\<in>set es. auth_success e"
  using serve_trace [OF assms(2,1)] assms(3) run_script_authenticated by auto

theorem scripts_need_authentication_witness:
  "auth_success (OLogin ''u'' ''pw'' True) \<and>
   (\<exists>c'. serve sample_env (sample_conn sample_run) = Some c' \<and> OScript KListScripts \<in> set (trace c'))"
proof -
  obtain c' where c': "serve sample_env (sample_conn sample_run) = Some c'"
    "trace c' = [OLogin ''u'' ''pw'' True, OScript KListScripts, OSessionClose, ONetClose]"
    using sample_run_trace by auto
  then have "trace c' = [OLogin ''u'' ''pw'' True] @ OScript KListScripts # [OSessionClose, ONetClose]" by simp
  from scripts_need_authentication [OF sample_fresh c'(1) this] c' show ?thesis by auto
qed

text \<open>C21. Authentication succeeds at most once: after a success the session is never asked to
  authenticate again on that connection.\<close>

theorem authenticated_once:
  assumes "fresh c" and "serve env c = Some c'" and "trace c' = es @ e # fs" and "auth_success e"
  shows "\<not> (\<exists>x\<in>set fs. auth_attempt x)"
  using serve_trace [OF assms(2,1)] assms(3,4) run_one_success by auto

theorem authenticated_once_witness:
  "\<exists>c' fs. serve sample_env (sample_conn sample_run) = Some c' \<and> trace c' = OLogin ''u'' ''pw'' True # fs
     \<and> \<not> (\<exists>x\<in>set fs. auth_attempt x)"
proof -
  obtain c' where c': "serve sample_env (sample_conn sample_run) = Some c'"
    "trace c' = [] @ OLogin ''u'' ''pw'' True # [OScript KListScripts, OSessionClose, ONetClose]"
    using sample_run_trace by auto
  from authenticated_once [OF sample_fresh c'] c' show ?thesis by auto
qed

text \<open>C11. However a served connection ends - LOGOUT, errors, timeouts, shutdown, a dead socket, a session
  that took it over - the session is closed exactly once; the socket is closed exactly once, and only if
  it was not handed over; and the timeout hook fires at most once.\<close>

theorem torn_down_once:
  assumes "fresh c" and "serve env c = Some c'"
  shows "count_list (trace c') OSessionClose = 1
    \<and> count_list (trace c') ONetClose = (if hijacked c' then 0 else 1)
    \<and> length (filter is_timeout (trace c')) \<le> 1"
proof -
  from serve_trace [OF assms(2,1)]
  have "rfc_run NonAuthenticated (trace c') (if hijacked c' then SessionClosed else Closed)" by auto
  from run_counts [OF this] show ?thesis by (auto simp: phase_order)
qed

theorem torn_down_once_witness:
  "\<exists>c'. serve sample_env (sample_conn sample_run) = Some c' \<and> count_list (trace c') OSessionClose = 1
     \<and> count_list (trace c') ONetClose = 1"
proof -
  obtain c' where c': "serve sample_env (sample_conn sample_run) = Some c'" "\<not> hijacked c'"
    using sample_run_trace by auto
  from torn_down_once [OF sample_fresh c'(1)] c' show ?thesis by auto
qed


text \<open>A client that falls silent inside a command, against the absolute limit; and one that makes its TLS
  handshake and falls silent after it.\<close>

definition limited_env :: "mem_session env" where
  "limited_env = env_of (sample_opts\<lparr>AbsoluteSessionTimeout := 1000\<rparr>)"

definition limited_conn :: "bool \<Rightarrow> net_ev list \<Rightarrow> mem_session conn" where
  "limited_conn pend es = with_session (sess_of sample_store []) (fresh_conn limited_env PlainConn pend es Accepts 0 0)"


text \<open>C40. A gap in that promise: a client of a TLS listener that says nothing at all. The handshake runs
  inside the flush of the greeting, before any read deadline is armed, so neither the idle timeouts nor
  the absolute one nor the write timeout ends it: such a client holds its connection for as long as it
  likes, whatever the options.\<close>

theorem silent_handshake_held:
  assumes "tlsPending c" and "rdl c = None" and "werr c = None" and "inp c = map Wait ns @ Stall # es"
  shows "serve env c = None"
proof -
  let ?g = "sendGreeting env c"
  have "wbuf ?g \<noteq> []" by (rule greeting_queued [OF assms(3)])
  moreover have "HandshakeContext None (armWrite ?g) = None"
    using tls_silent [of ns es "armWrite ?g"] assms by (simp add: HandshakeContext_def min_deadline_def)
  ultimately have "flush ?g = None" using assms(1,3) by (simp add: flush_def)
  then show ?thesis by (simp add: serve_def)
qed

theorem silent_handshake_held_witness:
  "serve limited_env (limited_conn True [Wait 5, Stall]) = None"
proof -
  have "tlsPending (limited_conn True [Wait 5, Stall])" "rdl (limited_conn True [Wait 5, Stall]) = None"
    "werr (limited_conn True [Wait 5, Stall]) = None"
    "inp (limited_conn True [Wait 5, Stall]) = map Wait [5] @ Stall # []"
    by (simp_all add: limited_conn_def with_session_def fresh_conn_def)
  then show ?thesis by (rule silent_handshake_held)
qed

text \<open>C22. The error budget holds: with a positive \<open>MaxErrors\<close> a connection never counts more errors than
  that, over its whole life.\<close>

theorem errors_bounded:
  assumes "fresh c" and "0 < MaxErrors (opts env)" and "serve env c = Some c'"
  shows "errorCount c' \<le> MaxErrors (opts env)"
  using assms(3)
proof (cases rule: serve_cases)
  case (greeting e c1)
  with greeting_step(6) [OF greeting(1)] assms(1,2) show ?thesis
    by (simp add: close_conn_trace fresh_def)
next
  case (loop c1 c2)
  note g = greeting_step [OF loop(1)]
  have b1: "below_limit env c1" and h1: "\<not> hijacked c1"
    using g assms(1,2) by (simp_all add: fresh_def below_limit_def maxErrorsExceeded_def)
  obtain b where b: "below_limit env b" "\<not> hijacked b" "serve_turn env b = Some (False, c2)"
    using serve_loop_last [OF loop(2) h1, of "below_limit env", OF b1] turn_limit by blast
  from turn_count [OF b(3,2)] b(1) assms(2) loop(3) show ?thesis
    by (simp add: close_conn_trace below_limit_def maxErrorsExceeded_def)
qed

theorem errors_bounded_witness:
  "\<exists>c'. serve sample_env (sample_conn sample_run) = Some c' \<and> errorCount c' \<le> 2"
proof -
  obtain c' where c': "serve sample_env (sample_conn sample_run) = Some c'" using sample_run_trace by auto
  have m: "MaxErrors (opts sample_env) = 2" by code_simp
  from errors_bounded [OF sample_fresh _ c'] m c' show ?thesis by auto
qed

end
