(* ===== verification/Client.thy ===== *)
theory Client
  imports Parser GoBase64 Handshake
begin

text \<open>
  The client (\<open>managesieveclient/client.go\<close>): the connection and its capability map, the contexts its
  operations run under, bounded line reads, capability blocks, STARTTLS and the commands. A client
  extends the socket of \<open>NetIO\<close>; the script of events is what the server does.
\<close>

section \<open>State\<close>

record client_options =
  cl_TLSConfig :: bool
  cl_STARTTLS :: bool
  cl_MaxLineLength :: int
  cl_MaxCapabilityLines :: int

record client = netio +
  cl_tls :: bool
  maxLine :: int
  maxCaps :: int
  caps :: "string \<rightharpoonup> string"
  greeting :: string
  cl_closed :: bool

text \<open>The errors of the package: those of the connection, its own texts, and \<open>ProtocolError\<close>.\<close>

datatype client_error = NetFailure goerr | ClientFailure string | ProtocolError string

definition protocol_error_text :: "string \<Rightarrow> string" where
  "protocol_error_text resp = ''managesieveclient: unexpected response: '' @ resp"

section \<open>Contexts\<close>

text \<open>What an operation sees of its context: the deadline and whether it is done before the operation
  starts. The goroutine of \<open>guard\<close> races with the operation: \<open>ctx_prompt\<close> tells that it pokes before the
  first write when the context is done already, \<open>ctx_wakes\<close> that it has run by the time the operation
  returns when the context was done or its deadline has passed; between the two it may poke at a read,
  which is the event \<^const>\<open>Cancel\<close> of the script, like a cancellation during the operation. With a context
  that is never done there is none of this.\<close>

record ctx =
  ctx_Deadline :: "int option"
  ctx_done :: bool
  ctx_prompt :: bool
  ctx_wakes :: bool

definition poison :: "client \<Rightarrow> client" where
  "poison c = c\<lparr>poisoned := True, rdl := Some (now c - 1000000000), wdl := Some (now c - 1000000000)\<rparr>"

definition guard_start :: "ctx \<Rightarrow> client \<Rightarrow> client" where
  "guard_start ctx c =
     (if ctx_done ctx \<and> ctx_prompt ctx then poison (c\<lparr>cancelled := True\<rparr>) else c\<lparr>cancelled := False\<rparr>)"

definition guard_stop :: "ctx \<Rightarrow> client \<Rightarrow> client" where
  "guard_stop ctx c =
     (if (ctx_done ctx \<or> expired (ctx_Deadline ctx) (now c)) \<and> ctx_wakes ctx \<and> \<not> cancelled c
      then poison (c\<lparr>cancelled := True\<rparr>) else c)"

definition guard :: "ctx \<Rightarrow> (client \<Rightarrow> ('r \<times> client) option) \<Rightarrow> client \<Rightarrow> ('r \<times> client) option" where
  "guard ctx run c = do {
     (r, c1) \<leftarrow> run (guard_start ctx c);
     Some (r, guard_stop ctx c1)
   }"

definition armReadDeadline :: "ctx \<Rightarrow> client \<Rightarrow> client" where
  "armReadDeadline ctx c = (case ctx_Deadline ctx of
       None \<Rightarrow> c
     | Some dl \<Rightarrow> if poisoned c then c else c\<lparr>rdl := Some dl\<rparr>)"

definition armWriteDeadline :: "ctx \<Rightarrow> client \<Rightarrow> client" where
  "armWriteDeadline ctx c = (case ctx_Deadline ctx of
       None \<Rightarrow> c
     | Some dl \<Rightarrow> if poisoned c then c else c\<lparr>wdl := Some dl\<rparr>)"

text \<open>\<open>Client.SetDeadline\<close>, for the caller.\<close>

definition cl_SetDeadline :: "int option \<Rightarrow> client \<Rightarrow> client" where
  "cl_SetDeadline t c = c\<lparr>rdl := t, wdl := t\<rparr>"

definition cl_Close :: "client \<Rightarrow> client" where
  "cl_Close c = c\<lparr>cl_closed := True\<rparr>"

section \<open>Lines\<close>

text \<open>\<open>bufio.Reader.ReadLine\<close>: a chunk and whether more of the line follows. A CR at the end of a full
  buffer goes back; an error is reported only when no byte came before it.\<close>

definition drop_line_end :: "string \<Rightarrow> string" where
  "drop_line_end s =
     (if s \<noteq> [] \<and> last s = LF then
        (if 1 < length s \<and> s ! (length s - 2) = CR then butlast (butlast s) else butlast s)
      else s)"

definition ReadLine :: "'a netio_scheme \<Rightarrow> ((goerr + string \<times> bool) \<times> 'a netio_scheme) option" where
  "ReadLine c = do {
     ((s, err), c1) \<leftarrow> ReadSlice c;
     if err = Some ErrBufferFull then
       (if s \<noteq> [] \<and> last s = CR then Some (Inr (butlast s, True), c1\<lparr>rbuf := CR # rbuf c1\<rparr>)
        else Some (Inr (s, True), c1))
     else (case (s, err) of
         ([], Some e) \<Rightarrow> Some (Inl e, c1)
       | _ \<Rightarrow> Some (Inr (drop_line_end s, False), c1))
   }"

lemma ReadLine_cost:
  assumes "ReadLine c = Some (Inr (chunk, True), c')"
  shows "cost c' < cost c"
proof -
  obtain s c1 where s: "ReadSlice c = Some ((s, Some ErrBufferFull), c1)"
    and c': "c' = c1 \<or> c' = c1\<lparr>rbuf := CR # rbuf c1\<rparr>"
    using assms by (auto simp: ReadLine_def split: if_splits prod.splits list.splits option.splits
        bind_splits)
  have "cost c1 + length s \<le> cost c" "4096 \<le> length s"
    using ReadSlice_facts [OF s] by (simp_all add: slice_ok_def bufio_size_def)
  with c' show ?thesis by (auto simp: cost_def)
qed

text \<open>The loop of \<open>readLine\<close>; \<open>line\<close> is what it has gathered.\<close>

function line_loop :: "int \<Rightarrow> string \<Rightarrow> 'a netio_scheme
    \<Rightarrow> ((client_error + string) \<times> 'a netio_scheme) option" where
  "line_loop limit line0 c =
     (case ReadLine c of
        None \<Rightarrow> None
      | Some (Inl e, c1) \<Rightarrow> Some (Inl (NetFailure e), c1)
      | Some (Inr (chunk, isPrefix), c1) \<Rightarrow>
          let line = line0 @ chunk in
          if limit < int (length line) then
            Some (Inl (ClientFailure ''managesieveclient: response line too long''), c1)
          else if \<not> isPrefix then Some (Inr line, c1)
          else line_loop limit line c1)"
  by pat_completeness auto
termination
  by (relation "measure (\<lambda>(m, l, c). cost c)") (auto dest: ReadLine_cost)

declare line_loop.simps [simp del]

text \<open>A cancellation that lands during the read poisons the connection.\<close>

definition poked :: "client \<Rightarrow> client" where
  "poked c = (if cancelled c then poison c else c)"

definition cl_readLine :: "ctx \<Rightarrow> client \<Rightarrow> ((client_error + string) \<times> client) option" where
  "cl_readLine ctx c =
     map_option (apsnd poked) (line_loop (maxLine c) [] (armReadDeadline ctx c))"

definition writeCmd :: "ctx \<Rightarrow> string \<Rightarrow> client \<Rightarrow> (client_error option \<times> client) option" where
  "writeCmd ctx line c = do {
     let c1 = armWriteDeadline ctx c;
     case werr c1 of
       Some e \<Rightarrow> Some (Some (NetFailure e), c1)
     | None \<Rightarrow> do {
         (err, c2) \<leftarrow> Flush (WriteString (line @ CRLF) c1);
         Some (map_option NetFailure err, c2)
       }
   }"

section \<open>Status lines and capabilities\<close>

definition isStatus :: "string \<Rightarrow> string \<Rightarrow> bool" where
  "isStatus line status \<longleftrightarrow> line = status \<or> HasPrefix line (status @ '' '')
     \<or> HasPrefix line (status @ ''('') \<or> HasPrefix line (status @ '' ('')"

definition isOK :: "string \<Rightarrow> bool" where
  "isOK line = isStatus line ''OK''"

text \<open>\<open>closingQuote\<close>: \<^const>\<open>None\<close> is -1; the loop starts behind the opening quote.\<close>

fun closing_from :: "nat \<Rightarrow> bool \<Rightarrow> string \<Rightarrow> nat option" where
  "closing_from i escaped [] = None"
| "closing_from i escaped (b # s) =
     (if escaped then closing_from (Suc i) False s
      else if b = BSLASH then closing_from (Suc i) True s
      else if b = DQUOTE then Some i
      else closing_from (Suc i) False s)"

definition closingQuote :: "string \<Rightarrow> nat option" where
  "closingQuote s = closing_from 1 False (drop 1 s)"

text \<open>The loop of \<open>unquote\<close>, with the builder it fills.\<close>

fun unquote_loop :: "bool \<Rightarrow> string \<Rightarrow> string \<Rightarrow> string" where
  "unquote_loop escaped b [] = b"
| "unquote_loop escaped b (x # inner) =
     (if escaped then unquote_loop False (b @ [x]) inner
      else if x = BSLASH then unquote_loop True b inner
      else unquote_loop False (b @ [x]) inner)"

definition unquote :: "string \<Rightarrow> string" where
  "unquote s =
     (if length s < 2 \<or> hd s \<noteq> DQUOTE \<or> last s \<noteq> DQUOTE then s
      else unquote_loop False [] (butlast (tl s)))"

definition parseCapabilityLine :: "string \<Rightarrow> string \<times> string" where
  "parseCapabilityLine line0 =
     (let line = TrimSpace line0 in
      if line = [] then ([], [])
      else if hd line \<noteq> DQUOTE then
        (case SplitN2 SP line of
           (p0, Some p1) \<Rightarrow> (p0, unquote (TrimSpace p1))
         | (p0, None) \<Rightarrow> (p0, []))
      else (case closingQuote line of
          None \<Rightarrow> ([], [])
        | Some end_ \<Rightarrow>
            let name = unquote (take (end_ + 1) line); rest = TrimSpace (drop (end_ + 1) line)
            in if rest = [] then (name, []) else (name, unquote rest)))"

text \<open>\<open>readCapabilityBlock\<close>: the number counts down what \<open>maxCaps\<close> still allows; \<open>up\<close> is Go's
  table of upper-case letters beyond ASCII.\<close>

fun read_caps :: "(nat \<Rightarrow> nat) \<Rightarrow> ctx \<Rightarrow> nat \<Rightarrow> (string \<rightharpoonup> string) \<Rightarrow> client
    \<Rightarrow> (client_error option \<times> client) option" where
  "read_caps up ctx 0 m c =
     Some (Some (ClientFailure ''managesieveclient: capability block too long''), c)"
| "read_caps up ctx (Suc k) m c =
     (case cl_readLine ctx c of
        None \<Rightarrow> None
      | Some (Inl e, c1) \<Rightarrow> Some (Some e, c1)
      | Some (Inr line, c1) \<Rightarrow>
          if isOK line then Some (None, c1\<lparr>caps := m, greeting := line\<rparr>)
          else if isStatus line ''NO'' \<or> isStatus line ''BYE'' then
            Some (Some (ProtocolError line), c1)
          else
            let (name, val) = parseCapabilityLine line
            in read_caps up ctx k (if name \<noteq> [] then m(ToUpper up name \<mapsto> val) else m) c1)"

definition readCapabilityBlock :: "(nat \<Rightarrow> nat) \<Rightarrow> ctx \<Rightarrow> client
    \<Rightarrow> (client_error option \<times> client) option" where
  "readCapabilityBlock up ctx c = read_caps up ctx (nat (maxCaps c)) Map.empty c"

text \<open>\<open>Capabilities\<close> copies the map.\<close>

definition Capabilities :: "client \<Rightarrow> string \<rightharpoonup> string" where
  "Capabilities c = caps c"

section \<open>Connecting\<close>

text \<open>\<open>tls.Client\<close> and its handshake under the context: both deadlines of the socket are set from it
  directly, and a context that is done fails the handshake.\<close>

definition tls_upgrade :: "ctx \<Rightarrow> client \<Rightarrow> (goerr option \<times> client) option" where
  "tls_upgrade ctx c =
     (let c1 = (case ctx_Deadline ctx of None \<Rightarrow> c | Some dl \<Rightarrow> cl_SetDeadline (Some dl) c) in
      if cancelled c1 \<or> ctx_done ctx then Some (Some TimeoutErr, c1)
      else map_option (apsnd poked) (HandshakeContext (ctx_Deadline ctx) c1))"

definition expect_OK :: "ctx \<Rightarrow> client \<Rightarrow> (client_error option \<times> client) option" where
  "expect_OK ctx c = do {
     (r, c1) \<leftarrow> cl_readLine ctx c;
     Some (case r of
         Inl e \<Rightarrow> Some e
       | Inr status \<Rightarrow> if isOK status then None else Some (ProtocolError status), c1)
   }"

definition startTLS :: "(nat \<Rightarrow> nat) \<Rightarrow> ctx \<Rightarrow> client \<Rightarrow> (client_error option \<times> client) option" where
  "startTLS up ctx c = do {
     (e1, c1) \<leftarrow> writeCmd ctx ''STARTTLS'' c;
     if e1 \<noteq> None then Some (e1, c1)
     else do {
       (e2, c2) \<leftarrow> expect_OK ctx c1;
       if e2 \<noteq> None then Some (e2, c2)
       else do {
         (e3, c3) \<leftarrow> tls_upgrade ctx c2;
         case e3 of
           Some e \<Rightarrow> Some (Some (NetFailure e), c3)
         | None \<Rightarrow>
             readCapabilityBlock up ctx
               (c3\<lparr>cl_tls := True, rbuf := [], wbuf := [], werr := None\<rparr>)
       }
     }
   }"

definition client_of :: "client_options \<Rightarrow> netio \<Rightarrow> client" where
  "client_of opt raw =
     netio.extend (raw\<lparr>rbuf := [], wbuf := [], werr := None, wtimeout := 0, poisoned := False,
         cancelled := False\<rparr>)
       \<lparr>cl_tls = False,
        maxLine = (if cl_MaxLineLength opt \<le> 0 then 8192 else cl_MaxLineLength opt),
        maxCaps = (if cl_MaxCapabilityLines opt \<le> 0 then 64 else cl_MaxCapabilityLines opt),
        caps = Map.empty, greeting = [], cl_closed = False\<rparr>"

text \<open>\<open>NewClient\<close>: an error closes the connection. The implicit handshake runs before \<open>guard\<close>.\<close>

definition connect :: "(nat \<Rightarrow> nat) \<Rightarrow> ctx \<Rightarrow> client_options \<Rightarrow> client
    \<Rightarrow> (client_error option \<times> client) option" where
  "connect up ctx opt c = do {
     (e1, c1) \<leftarrow> readCapabilityBlock up ctx c;
     if e1 \<noteq> None then Some (e1, cl_Close c1)
     else if cl_TLSConfig opt \<and> cl_STARTTLS opt then do {
       (e2, c2) \<leftarrow> startTLS up ctx c1;
       Some (e2, if e2 \<noteq> None then cl_Close c2 else c2)
     }
     else Some (None, c1)
   }"

definition NewClient :: "(nat \<Rightarrow> nat) \<Rightarrow> ctx \<Rightarrow> netio \<Rightarrow> client_options
    \<Rightarrow> (client_error option \<times> client) option" where
  "NewClient up ctx raw opt =
     (let c = client_of opt raw in
      if cl_TLSConfig opt \<and> \<not> cl_STARTTLS opt then do {
        (err, c1) \<leftarrow> tls_upgrade ctx (c\<lparr>cancelled := ctx_done ctx\<rparr>);
        case err of
          Some e \<Rightarrow> Some (Some (NetFailure e), cl_Close c1)
        | None \<Rightarrow> guard ctx (connect up ctx opt) (c1\<lparr>cl_tls := True\<rparr>)
      }
      else guard ctx (connect up ctx opt) c)"

text \<open>\<open>Dial\<close>, with the outcome of the dialer.\<close>

definition Dial :: "(nat \<Rightarrow> nat) \<Rightarrow> ctx \<Rightarrow> (goerr + netio) \<Rightarrow> client_options
    \<Rightarrow> (client_error option \<times> client option) option" where
  "Dial up ctx dialed opt =
     (case dialed of
        Inl e \<Rightarrow> Some (Some (NetFailure e), None)
      | Inr raw \<Rightarrow> map_option (\<lambda>(e, c). (e, Some c)) (NewClient up ctx raw opt))"

section \<open>Commands\<close>

definition Cmd :: "ctx \<Rightarrow> string \<Rightarrow> client \<Rightarrow> ((client_error + string) \<times> client) option" where
  "Cmd ctx line = guard ctx (\<lambda>c. do {
     (e1, c1) \<leftarrow> writeCmd ctx line c;
     case e1 of
       Some e \<Rightarrow> Some (Inl e, c1)
     | None \<Rightarrow> cl_readLine ctx c1
   })"

definition Logout :: "ctx \<Rightarrow> client \<Rightarrow> (client_error option \<times> client) option" where
  "Logout ctx c = do {
     (r, c1) \<leftarrow> Cmd ctx ''LOGOUT'' c;
     Some (case r of
         Inl e \<Rightarrow> Some e
       | Inr status \<Rightarrow> if isOK status then None else Some (ProtocolError status), c1)
   }"

definition cl_Capability :: "(nat \<Rightarrow> nat) \<Rightarrow> ctx \<Rightarrow> client
    \<Rightarrow> ((client_error + (string \<rightharpoonup> string)) \<times> client) option" where
  "cl_Capability up ctx = guard ctx (\<lambda>c. do {
     (e1, c1) \<leftarrow> writeCmd ctx ''CAPABILITY'' c;
     case e1 of
       Some e \<Rightarrow> Some (Inl e, c1)
     | None \<Rightarrow> do {
         (e2, c2) \<leftarrow> readCapabilityBlock up ctx c1;
         Some (case e2 of Some e \<Rightarrow> Inl e | None \<Rightarrow> Inr (Capabilities c2), c2)
       }
   })"

definition plain_payload :: "string \<Rightarrow> string \<Rightarrow> string \<Rightarrow> string" where
  "plain_payload identity user pw = identity @ CHR 0x00 # user @ CHR 0x00 # pw"

definition auth_line :: "string \<Rightarrow> string \<Rightarrow> string \<Rightarrow> string" where
  "auth_line identity user pw =
     ''AUTHENTICATE '' @ DQUOTE # ''PLAIN'' @ DQUOTE # SP # Quote (EncodeToString (plain_payload identity user pw))"

definition cl_AuthenticatePlain :: "ctx \<Rightarrow> string \<Rightarrow> string \<Rightarrow> string \<Rightarrow> client
    \<Rightarrow> (client_error option \<times> client) option" where
  "cl_AuthenticatePlain ctx identity user pw = guard ctx (\<lambda>c. do {
     (e1, c1) \<leftarrow> writeCmd ctx (auth_line identity user pw) c;
     if e1 \<noteq> None then Some (e1, c1) else expect_OK ctx c1
   })"

end
