(* ===== verification/ClientFacts.thy ===== *)
theory ClientFacts
  imports Client
begin

text \<open>
  What the client's parts do: its parsing routines against the server's, \<open>ReadLine\<close> and \<open>readLine\<close> on
  any segmentation of the bytes, deadlines, poisoning, and what a step of the client leaves alone.
\<close>

section \<open>Parsing\<close>

lemma unquote_loop_unescape: "unquote_loop escaped b s = b @ unescape escaped s"
  by (induction escaped b s rule: unquote_loop.induct) simp_all

lemma unquote_server: "unquote s = unquoteString s"
  by (simp add: unquote_def unquoteString_def unquote_loop_unescape)

lemma closing_from_scan: "closing_from i escaped s = map_option ((+) i) (scan_quote s escaped)"
  by (induction i escaped s rule: closing_from.induct) (simp_all add: option.map_comp comp_def)

lemma closingQuote_Quote: "closingQuote (Quote s @ t) = Some (length (Quote s) - 1)"
  by (simp add: closingQuote_def closing_from_scan Quote_esc scan_quote_esc)

lemma Quote_plain: "DQUOTE \<notin> set s \<Longrightarrow> BSLASH \<notin> set s \<Longrightarrow> Quote s = DQUOTE # s @ [DQUOTE]"
proof -
  assume "DQUOTE \<notin> set s" "BSLASH \<notin> set s"
  then have "concat (map esc s) = s" by (induction s) (auto simp: esc_def)
  then show ?thesis by (simp add: Quote_esc)
qed

text \<open>The line of one capability: its name, quoted, and its value, quoted, when it has one.\<close>

definition pair_line :: "string \<times> string option \<Rightarrow> string" where
  "pair_line = (\<lambda>(n, v). case v of None \<Rightarrow> Quote n | Some x \<Rightarrow> Quote n @ SP # Quote x)"

lemma edged_Quote_append: "edged (Quote a @ SP # Quote b)"
  using quote_args_edged [of "[a, b]"] by simp

lemma Quote_hd: "hd (Quote s) = DQUOTE"
  by (simp add: Quote_esc)

interpretation cl: quote_scanner unquote closingQuote
proof unfold_locales
  show "unquote (Quote s) = s" for s by (simp add: unquote_server unquote_Quote)
  show "unquote s = s" if "s = [] \<or> hd s \<noteq> DQUOTE" for s
    using that by (auto simp: unquote_def)
  show "closingQuote (Quote s @ t) = Some (length (Quote s) - 1)" for s t by (rule closingQuote_Quote)
qed

lemma parseCapabilityLine_pair:
  "parseCapabilityLine (pair_line (n, v)) = (n, case v of None \<Rightarrow> [] | Some x \<Rightarrow> x)"
proof (cases v)
  case None
  have c: "closingQuote (Quote n @ []) = Some (length (Quote n) - 1)" by (rule cl.closing_Quote)
  from None cl.split_quoted [OF c] c Quote_hd [of n] show ?thesis
    by (simp add: pair_line_def parseCapabilityLine_def TrimSpace_edged Let_def)
next
  case (Some x)
  let ?l = "Quote n @ SP # Quote x"
  have c: "closingQuote ?l = Some (length (Quote n) - 1)" by (rule cl.closing_Quote)
  have "hd ?l = DQUOTE" "TrimSpace ?l = ?l"
    by (simp add: Quote_esc, rule TrimSpace_edged [OF edged_Quote_append])
  moreover have "TrimSpace (SP # Quote x) = Quote x"
    by (rule TrimSpace_space_edged) (use quote_args_edged [of "[x]"] in simp)
  ultimately show ?thesis using Some cl.split_quoted [OF c] c
    by (simp add: pair_line_def parseCapabilityLine_def Let_def cl.unq_Quote)
qed

lemma HasPrefix_iff: "HasPrefix s p \<longleftrightarrow> (\<exists>t. s = p @ t)"
  by (auto simp: HasPrefix_def) (metis append_take_drop_id)

lemma isStatus_prefix:
  "isStatus line status \<longleftrightarrow> line = status \<or> (\<exists>t. line = status @ SP # t) \<or> (\<exists>t. line = status @ CHR ''('' # t)"
  unfolding isStatus_def HasPrefix_iff by auto

text \<open>The token a status line starts with.\<close>

definition status_token :: "string \<Rightarrow> string" where
  "status_token line = takeWhile (\<lambda>c. c \<noteq> SP \<and> c \<noteq> CHR ''('') line"

lemma isStatus_token:
  assumes "SP \<notin> set status" "CHR ''('' \<notin> set status"
  shows "isStatus line status \<longleftrightarrow> status_token line = status"
proof
  assume "isStatus line status"
  then show "status_token line = status"
    using assms unfolding isStatus_prefix status_token_def
    by (auto simp: takeWhile_append takeWhile_eq_all_conv)
next
  assume t: "status_token line = status"
  let ?P = "\<lambda>c. c \<noteq> SP \<and> c \<noteq> CHR ''(''"
  obtain rest where l: "line = status @ rest" and r: "rest = dropWhile ?P line"
    using t takeWhile_dropWhile_id [of ?P line] unfolding status_token_def by metis
  show "isStatus line status"
  proof (cases rest)
    case (Cons x xs)
    then have "\<not> ?P x" using r hd_dropWhile [of ?P line] by auto
    with l Cons show ?thesis by (auto simp: isStatus_prefix)
  qed (use l in \<open>simp add: isStatus_def\<close>)
qed

lemma pair_line_no_status: "status \<noteq> [] \<Longrightarrow> hd status \<noteq> DQUOTE \<Longrightarrow> \<not> isStatus (pair_line p) status"
  by (cases status) (auto simp: isStatus_prefix pair_line_def Quote_esc split: prod.splits option.splits)

section \<open>Lines\<close>

lemma drop_line_end_simps:
  "drop_line_end (v @ CRLF) = v"
  "LF \<notin> set s \<Longrightarrow> drop_line_end s = s"
proof -
  show "drop_line_end (v @ CRLF) = v" by (simp add: drop_line_end_def nth_append butlast_append)
  show "LF \<notin> set s \<Longrightarrow> drop_line_end s = s"
    unfolding drop_line_end_def by (metis last_in_set)
qed

lemma split_before:
  assumes "s @ p = v @ x # w" "x \<notin> set s"
  shows "\<exists>v'. v = s @ v' \<and> p = v' @ x # w"
  using assms by (auto simp: append_eq_append_conv2 append_eq_Cons_conv)

text \<open>One chunk of a line that ends in CRLF, under a peer that only sends.\<close>

lemma ReadLine_chunk:
  assumes "quiet c" "pending c = v @ CRLF @ rest" "LF \<notin> set v"
  obtains (last) c1 where "ReadLine c = Some (Inr (v, False), c1)" "pending c1 = rest" "quiet c1" "moved c c1"
  | (part) s v' c1 where "ReadLine c = Some (Inr (s, True), c1)" "v = s @ v'"
      "pending c1 = v' @ CRLF @ rest" "quiet c1" "moved c c1"
  using assms(1)
proof (cases rule: quiet_slice)
  case (line t c1)
  have "t @ LF # pending c1 = (v @ [CR]) @ LF # rest" using line(3) assms(2) by simp
  with line(2) assms(3) have t: "t = v @ [CR]" and p: "pending c1 = rest"
    using split_before [of t "LF # pending c1" "v @ [CR]" LF rest]
    by (auto simp: append_eq_append_conv2 append_eq_Cons_conv Cons_eq_append_conv)
  have "drop_line_end (t @ [LF]) = v" using drop_line_end_simps(1) [of v] t by simp
  then have "ReadLine c = Some (Inr (v, False), c1)"
    using line(1) by (cases t) (simp_all add: ReadLine_def)
  from this p line(4,5) show thesis by (rule last)
next
  case (full s c1)
  have "s @ pending c1 = (v @ [CR]) @ LF # rest" using full(3) assms(2) by simp
  from split_before [OF this full(2)] obtain w where w: "v @ [CR] = s @ w" "pending c1 = w @ LF # rest"
    by auto
  show thesis
  proof (cases "s \<noteq> [] \<and> last s = CR")
    case True
    let ?c = "c1\<lparr>rbuf := CR # rbuf c1\<rparr>"
    have r: "ReadLine c = Some (Inr (butlast s, True), ?c)" using full(1) True by (simp add: ReadLine_def)
    have s: "s = butlast s @ [CR]" using True by (metis append_butlast_last_id)
    then have "v @ [CR] = butlast s @ CR # w" using w(1) by (metis append.assoc append_Cons append_Nil)
    then have v: "v = butlast s @ butlast (CR # w)"
      by (metis butlast_append butlast_snoc list.distinct(1))
    have "CR # w = butlast (CR # w) @ [CR]" using \<open>v @ [CR] = butlast s @ CR # w\<close>
      by (metis append_butlast_last_id last_appendR last_snoc list.distinct(1))
    then have "pending ?c = butlast (CR # w) @ CRLF @ rest"
      using w(2) by (simp add: pending_def)
    moreover have "quiet ?c" "moved c ?c"
      using full(4,5) by (simp_all add: quiet_def moved_def) (metis netio.surjective netio.update_convs(2))
    ultimately show thesis by (intro part [OF r v])
  next
    case False
    have r: "ReadLine c = Some (Inr (s, True), c1)" using full(1) False by (auto simp: ReadLine_def)
    have "w \<noteq> []"
    proof
      assume "w = []"
      then have "s = v @ [CR]" using w(1) by simp
      with False show False by simp
    qed
    then have v: "v = s @ butlast w" using w(1) by (metis butlast_append butlast_snoc)
    have "w = butlast w @ [CR]" using w(1) \<open>w \<noteq> []\<close>
      by (metis append_butlast_last_id last_appendR last_snoc)
    then have "pending c1 = butlast w @ CRLF @ rest" using w(2) by (metis append.assoc append_Cons append_Nil)
    with r v full(4,5) show thesis by (intro part)
  qed
next
  case (eof s c1)
  then show thesis using assms(2) by auto
qed

text \<open>The whole line, however it is cut up: returned without its CRLF when it fits.\<close>

lemma line_loop_quiet:
  assumes "quiet c" "pending c = v @ CRLF @ rest" "LF \<notin> set v" "int (length (line0 @ v)) \<le> m"
  shows "\<exists>c'. line_loop m line0 c = Some (Inr (line0 @ v), c') \<and> pending c' = rest \<and> quiet c' \<and> moved c c'"
  using assms
proof (induction m line0 c arbitrary: v rule: line_loop.induct)
  case (1 m line0 c)
  show ?case
  proof (cases rule: ReadLine_chunk [OF 1(2,3,4)])
    case (1 c1)
    with "1.prems"(4) show ?thesis by (subst line_loop.simps) auto
  next
    case (2 s v' c1)
    have l: "\<not> m < int (length (line0 @ s))" using "1.prems"(4) 2(2) by simp
    have "LF \<notin> set v'" "int (length ((line0 @ s) @ v')) \<le> m" using "1.prems"(3,4) 2(2) by simp_all
    from "1.IH" [OF 2(1) refl refl refl refl l _ 2(4) 2(3) this] 2(1,2,5) l show ?thesis
      by (subst line_loop.simps) (auto intro: moved_trans)
  qed
qed

lemma line_loop_long:
  assumes "quiet c" "pending c = v @ CRLF @ rest" "LF \<notin> set v" "m < int (length (line0 @ v))"
  shows "\<exists>e c'. line_loop m line0 c = Some (Inl (ClientFailure e), c') \<and> moved c c'"
  using assms
proof (induction m line0 c arbitrary: v rule: line_loop.induct)
  case (1 m line0 c)
  show ?case
  proof (cases rule: ReadLine_chunk [OF 1(2,3,4)])
    case (1 c1)
    with "1.prems"(4) show ?thesis by (subst line_loop.simps) auto
  next
    case (2 s v' c1)
    show ?thesis
    proof (cases "m < int (length (line0 @ s))")
      case True
      with 2 show ?thesis by (subst line_loop.simps) auto
    next
      case False
      have "LF \<notin> set v'" "m < int (length ((line0 @ s) @ v'))" using "1.prems"(3,4) 2(2) by simp_all
      from "1.IH" [OF 2(1) refl refl refl refl False _ 2(4) 2(3) this] 2(1,2,5) False show ?thesis
        by (subst line_loop.simps) (auto intro: moved_trans)
    qed
  qed
qed

end
