(* ===== verification/ClientRuns.thy ===== *)
theory ClientRuns
  imports ClientFacts
begin

text \<open>
  The client's operations step by step: what a read or a write leaves alone under any script of the
  server, when an operation returns, what a cancellation leaves behind, and capability blocks from a
  server that sends.
\<close>

section \<open>Reads under any script\<close>

text \<open>What one read may do: the writer and the client's own fields stay, the clock runs on, a deadline
  stays a deadline, only a cancellation poisons, and no handshake appears that was not to come.\<close>

definition read_step :: "'a netio_scheme \<Rightarrow> 'a netio_scheme \<Rightarrow> bool" where
  "read_step c c' \<longleftrightarrow> read_frame c c' \<and> cost c' \<le> cost c \<and> (rdl c \<noteq> None \<longrightarrow> rdl c' \<noteq> None)
     \<and> (poisoned c' \<longrightarrow> poisoned c \<or> cancelled c') \<and> hellos (inp c') \<subseteq> hellos (inp c)"

lemma read_step_trans: "read_step a b \<Longrightarrow> read_step b c \<Longrightarrow> read_step a c"
  unfolding read_step_def by (meson le_trans read_frame_def read_frame_trans subset_trans)

lemma read_evs_poison:
  "read_evs k es c = Some (r, c') \<Longrightarrow> poisoned c' \<Longrightarrow> poisoned c \<or> cancelled c'"
proof (induction k es c rule: read_evs.induct)
  case (2 k e es c)
  then show ?case
    by (auto simp: silence_def forceReadUnblock_def Let_def
        split: net_ev.splits option.splits if_splits)
qed (auto split: if_splits)

lemma ReadSlice_poison:
  "ReadSlice c = Some ((s, err), c') \<Longrightarrow> poisoned c' \<Longrightarrow> poisoned c \<or> cancelled c'"
proof (induction c arbitrary: s err c' rule: ReadSlice.induct)
  case (1 c)
  from 1(2) show ?case
  proof (cases rule: ReadSlice_cases)
    case (fail e c1)
    with read_evs_poison [OF fail(3) [unfolded net_read_def]] 1(3) show ?thesis by simp
  next
    case (more d c1)
    then have n: "\<not> bufio_size \<le> length (rbuf c)" "0 < bufio_size - length (rbuf c)" by simp_all
    have "cancelled c1 \<longrightarrow> cancelled c'"
      using ReadSlice_facts [OF more(4)] by (simp add: read_frame_def)
    with 1(1) [OF more(1) n(1) more(3) refl refl more(4) 1(3)]
      read_evs_poison [OF more(3) [unfolded net_read_def]] show ?thesis by auto
  qed (use 1(3) in simp_all)
qed

lemma ReadLine_step:
  assumes "ReadLine c = Some (r, c')"
  shows "read_step c c'"
proof -
  obtain s err c1 where s: "ReadSlice c = Some ((s, err), c1)"
    using assms by (auto simp: ReadLine_def bind_eq_Some_conv)
  note f = ReadSlice_facts [OF s] ReadSlice_rdl [OF s] ReadSlice_poison [OF s] ReadSlice_hellos [OF s]
  have "c' = c1 \<or> c' = c1\<lparr>rbuf := CR # rbuf c1\<rparr> \<and> s \<noteq> []"
    using assms s by (auto simp: ReadLine_def split: if_splits list.splits option.splits)
  then show ?thesis
  proof
    assume "c' = c1\<lparr>rbuf := CR # rbuf c1\<rparr> \<and> s \<noteq> []"
    then have "cost c' \<le> cost c1 + length s" by (cases s) (auto simp: cost_def)
    with f \<open>c' = c1\<lparr>rbuf := CR # rbuf c1\<rparr> \<and> s \<noteq> []\<close> show ?thesis by (auto simp: read_step_def)
  qed (use f in \<open>auto simp: read_step_def\<close>)
qed

lemma ReadLine_deadline: "rdl c \<noteq> None \<Longrightarrow> returns (ReadLine c)"
  using ReadSlice_deadline [of c]
  by (auto simp: ReadLine_def returns_def split: option.splits list.splits prod.splits)

lemma line_loop_step:
  "line_loop m line0 c = Some (r, c') \<Longrightarrow>
     read_step c c' \<and> (\<forall>l. r = Inr l \<longrightarrow> int (length l) \<le> m)"
proof (induction m line0 c rule: line_loop.induct)
  case (1 m line0 c)
  obtain q c1 where q: "ReadLine c = Some (q, c1)"
    using 1(2) by (subst (asm) line_loop.simps) (auto split: option.splits)
  note st = ReadLine_step [OF q]
  show ?case
  proof (cases q)
    case (Inl e)
    with 1(2) q st show ?thesis by (subst (asm) line_loop.simps) auto
  next
    case (Inr a)
    obtain chunk isPrefix where a: "a = (chunk, isPrefix)" by fastforce
    show ?thesis
    proof (cases "\<not> m < int (length (line0 @ chunk)) \<and> isPrefix")
      case True
      then have n: "\<not> m < int (length (line0 @ chunk))" "\<not> \<not> isPrefix" by simp_all
      with 1(2) q Inr a have l: "line_loop m (line0 @ chunk) c1 = Some (r, c')"
        by (subst (asm) line_loop.simps) simp
      from 1(1) [OF q refl Inr a [symmetric] refl n l] st show ?thesis
        by (blast intro: read_step_trans)
    next
      case False
      with 1(2) q Inr a st show ?thesis
        by (subst (asm) line_loop.simps) (auto simp: Let_def split: if_splits)
    qed
  qed
qed

lemma line_loop_returns: "rdl c \<noteq> None \<Longrightarrow> returns (line_loop m line0 c)"
proof (induction m line0 c rule: line_loop.induct)
  case (1 m line0 c)
  obtain q c1 where q: "ReadLine c = Some (q, c1)"
    using ReadLine_deadline [OF 1(2)] by (auto simp: returns_def)
  have "rdl c1 \<noteq> None" using ReadLine_step [OF q] 1(2) by (simp add: read_step_def)
  with 1(1) [OF q refl] q show ?case
    by (subst line_loop.simps) (auto simp: Let_def)
qed

section \<open>Operations under any script\<close>

lemma poison_fields [simp]:
  "poisoned (poison c)" "rdl (poison c) = Some (now c - 1000000000)"
  "wdl (poison c) = Some (now c - 1000000000)" "now (poison c) = now c" "sent (poison c) = sent c"
  "inp (poison c) = inp c" "rbuf (poison c) = rbuf c" "wtimeout (poison c) = wtimeout c"
  "netio.more (poison c) = netio.more c" "cancelled (poison c) = cancelled c"
  by (simp_all add: poison_def)

text \<open>A connection that a cancellation has poisoned, and one whose operations run under a deadline.\<close>

definition dead :: "client \<Rightarrow> bool" where
  "dead c \<longleftrightarrow> poisoned c \<and> wtimeout c \<le> 0 \<and> expired (wdl c) (now c)"

definition bounded :: "client \<Rightarrow> bool" where
  "bounded c \<longleftrightarrow> (poisoned c \<longrightarrow> rdl c \<noteq> None \<and> wdl c \<noteq> None)"

lemma dead_poison: "wtimeout c \<le> 0 \<Longrightarrow> dead (poison c)"
  by (simp add: dead_def expired_def)

lemma bounded_poison [simp]: "bounded (poison c)"
  by (simp add: bounded_def)

lemma dead_cancelled [simp]:
  "dead (c\<lparr>cancelled := b\<rparr>) = dead c" "bounded (c\<lparr>cancelled := b\<rparr>) = bounded c"
  by (simp_all add: dead_def bounded_def)

lemma poked_bounded: "poisoned c \<longrightarrow> cancelled c \<or> bounded c \<Longrightarrow> bounded (poked c)"
  by (auto simp: poked_def bounded_def)

lemma arm_deadline:
  assumes "ctx_Deadline ctx \<noteq> None" "bounded c"
  shows "rdl (armReadDeadline ctx c) \<noteq> None" "wdl (armWriteDeadline ctx c) \<noteq> None"
  using assms by (auto simp: armReadDeadline_def armWriteDeadline_def bounded_def)

lemma arm_frame:
  "netio.more (armReadDeadline ctx c) = netio.more c" "netio.more (armWriteDeadline ctx c) = netio.more c"
  "bounded c \<Longrightarrow> bounded (armReadDeadline ctx c)" "bounded c \<Longrightarrow> bounded (armWriteDeadline ctx c)"
  "poisoned c \<Longrightarrow> armReadDeadline ctx c = c" "poisoned c \<Longrightarrow> armWriteDeadline ctx c = c"
  by (auto simp: armReadDeadline_def armWriteDeadline_def bounded_def split: option.splits)

lemma arm_write_frame:
  "inp (armWriteDeadline ctx c) = inp c" "cancelled (armWriteDeadline ctx c) = cancelled c"
  "sent (armWriteDeadline ctx c) = sent c" "wtimeout (armWriteDeadline ctx c) = wtimeout c"
  "poisoned (armWriteDeadline ctx c) = poisoned c"
  by (auto simp: armWriteDeadline_def split: option.splits)

lemma arm_shape:
  obtains d where "armReadDeadline ctx c = c\<lparr>rdl := d\<rparr>"
proof -
  have "armReadDeadline ctx c = c\<lparr>rdl := rdl (armReadDeadline ctx c)\<rparr>"
    by (simp add: armReadDeadline_def split: option.splits)
  then show thesis by (rule that)
qed

text \<open>One line: what the client keeps, and that a cancellation during the read leaves it dead.\<close>

lemma cl_readLine_step:
  assumes "cl_readLine ctx c = Some (r, c')"
  shows "netio.more c' = netio.more c \<and> sent c' = sent c \<and> wtimeout c' = wtimeout c
    \<and> (bounded c \<longrightarrow> bounded c') \<and> (wtimeout c \<le> 0 \<and> cancelled c' \<longrightarrow> dead c')
    \<and> (\<forall>l. r = Inr l \<longrightarrow> int (length l) \<le> maxLine c) \<and> hellos (inp c') \<subseteq> hellos (inp c)"
proof -
  obtain d where d: "armReadDeadline ctx c = c\<lparr>rdl := d\<rparr>" by (rule arm_shape)
  obtain c1 where l: "line_loop (maxLine c) [] (armReadDeadline ctx c) = Some (r, c1)" and c': "c' = poked c1"
    using assms by (auto simp: cl_readLine_def)
  note st = line_loop_step [OF l]
  then have f: "netio.more c1 = netio.more c" "sent c1 = sent c" "wtimeout c1 = wtimeout c" "wdl c1 = wdl c"
    using d by (simp_all add: read_step_def read_frame_def)
  have "bounded (armReadDeadline ctx c)" if "bounded c" using that by (simp add: arm_frame)
  then have "bounded c'" if "bounded c"
    using that st d unfolding c'
    by (intro poked_bounded) (auto simp: read_step_def read_frame_def bounded_def)
  moreover have "dead c'" if "wtimeout c \<le> 0" "cancelled c'"
    using that f dead_poison [of c1] by (auto simp: c' poked_def split: if_splits)
  moreover have "hellos (inp c') \<subseteq> hellos (inp c)" using st d by (simp add: c' poked_def read_step_def)
  ultimately show ?thesis using f st by (auto simp: c' poked_def)
qed

lemma cl_readLine_returns:
  assumes "ctx_Deadline ctx \<noteq> None" "bounded c"
  shows "returns (cl_readLine ctx c)"
  using line_loop_returns [OF arm_deadline(1) [OF assms]] by (simp add: cl_readLine_def returns_def)

lemma writeCmd_step:
  assumes "writeCmd ctx line c = Some (e, c')"
  shows "netio.more c' = netio.more c \<and> wtimeout c' = wtimeout c \<and> (\<exists>p. sent c' = sent c @ p)
    \<and> (bounded c \<longrightarrow> bounded c') \<and> (dead c \<longrightarrow> e \<noteq> None \<and> sent c' = sent c \<and> dead c')
    \<and> inp c' = inp c \<and> cancelled c' = cancelled c"
proof (cases "werr (armWriteDeadline ctx c)")
  case (Some e')
  with assms show ?thesis
    by (auto simp: writeCmd_def Let_def arm_frame arm_write_frame dead_def bounded_def
        armWriteDeadline_def split: option.splits if_splits)
next
  case None
  let ?w = "WriteString (line @ CRLF) (armWriteDeadline ctx c)"
  obtain err where f: "Flush ?w = Some (err, c')" and e: "e = map_option NetFailure err"
    using assms None by (auto simp: writeCmd_def bind_eq_Some_conv)
  have w: "wbuf ?w \<noteq> []" using None by simp
  note ff = Flush_facts [OF f]
  have "bounded c'" if "bounded c"
  proof -
    have "bounded ?w" using arm_frame(4) [OF that] by (simp add: bounded_def)
    moreover have "wdl ?w \<noteq> None \<longrightarrow> wdl c' \<noteq> None"
      using f by (auto simp: Flush_def net_write_def armWrite_def full_write_def partial_write_def
          split: option.splits peer_write.splits if_splits)
    ultimately show ?thesis using ff by (auto simp: bounded_def write_frame_def)
  qed
  moreover have "e \<noteq> None \<and> sent c' = sent c \<and> dead c'" if "dead c"
  proof -
    have "armWriteDeadline ctx c = c" using that by (simp add: dead_def arm_frame)
    with f w None that show ?thesis
      by (auto simp: e dead_def Flush_def net_write_def armWrite_def partial_write_def)
  qed
  ultimately show ?thesis using ff arm_write_frame [of ctx c] arm_frame(2) [of ctx c] by (auto simp: write_frame_def)
qed

lemma writeCmd_returns:
  assumes "ctx_Deadline ctx \<noteq> None" "bounded c"
  shows "returns (writeCmd ctx line c)"
proof -
  have "wdl (WriteString (line @ CRLF) (armWriteDeadline ctx c)) \<noteq> None"
    using arm_deadline(2) [OF assms] by simp
  then show ?thesis
    using Flush_deadline [of "WriteString (line @ CRLF) (armWriteDeadline ctx c)"]
    by (cases "werr (armWriteDeadline ctx c)") (auto simp: writeCmd_def returns_def Let_def)
qed

text \<open>A capability block: at most as many lines as allowed are read, and what is stored is bounded.\<close>

definition same_limits :: "client \<Rightarrow> client \<Rightarrow> bool" where
  "same_limits c c' \<longleftrightarrow> maxLine c' = maxLine c \<and> maxCaps c' = maxCaps c \<and> cl_tls c' = cl_tls c
     \<and> wtimeout c' = wtimeout c \<and> sent c' = sent c"

lemma readLine_limits:
  "cl_readLine ctx c = Some (r, c') \<Longrightarrow> same_limits c c' \<and> (bounded c \<longrightarrow> bounded c')"
  using cl_readLine_step [of ctx c r c'] by (cases c; cases c') (simp add: same_limits_def)

lemma read_caps_step:
  assumes "read_caps upr ctx k m c = Some (e, c')" "finite (dom m)"
  shows "same_limits c c' \<and> (bounded c \<longrightarrow> bounded c') \<and> (e = None \<longrightarrow> finite (dom (caps c'))
    \<and> card (dom (caps c')) < card (dom m) + k \<and> isOK (greeting c') \<and> int (length (greeting c')) \<le> maxLine c)"
  using assms
proof (induction upr ctx k m c rule: read_caps.induct)
  case (2 upr ctx k m c)
  obtain r c1 where r: "cl_readLine ctx c = Some (r, c1)"
    using 2(2) by (auto split: option.splits)
  note st = readLine_limits [OF r] cl_readLine_step [OF r]
  show ?case
  proof (cases r)
    case (Inl e1)
    with 2(2) r st show ?thesis by auto
  next
    case (Inr line)
    let ?s = "isStatus line ''NO'' \<or> isStatus line ''BYE''"
    show ?thesis
    proof (cases "isOK line \<or> ?s")
      case True
      with 2(2,3) r Inr st show ?thesis
        by (auto simp: same_limits_def bounded_def split: if_splits)
    next
      case False
      obtain n v where p: "(n, v) = parseCapabilityLine line" by (metis surj_pair)
      let ?m = "if n \<noteq> [] then m(ToUpper upr n \<mapsto> v) else m"
      have l: "read_caps upr ctx k ?m c1 = Some (e, c')"
        using 2(2) r Inr False p [symmetric] by simp
      have f: "finite (dom ?m)" "card (dom ?m) \<le> Suc (card (dom m))"
        using 2(3) by (auto simp: card_insert_if)
      have "\<not> isOK line" "\<not> ?s" using False by simp_all
      from 2(1) [OF r refl Inr this refl p l f(1)] f(2) st show ?thesis
        by (auto simp: same_limits_def)
    qed
  qed
qed (auto simp: same_limits_def)

lemma read_caps_returns:
  "ctx_Deadline ctx \<noteq> None \<Longrightarrow> bounded c \<Longrightarrow> returns (read_caps upr ctx k m c)"
proof (induction upr ctx k m c rule: read_caps.induct)
  case (2 upr ctx k m c)
  obtain r c1 where r: "cl_readLine ctx c = Some (r, c1)"
    using cl_readLine_returns [OF 2(2,3)] by (auto simp: returns_def)
  have b: "bounded c1" using cl_readLine_step [OF r] 2(3) by simp
  show ?case
  proof (cases r)
    case (Inr line)
    with r 2(1) [OF r refl Inr _ _ refl _ 2(2) b] show ?thesis
      by (auto simp: Let_def split: prod.splits)
  qed (simp add: r)
qed simp

lemma readCapabilityBlock_step:
  assumes "readCapabilityBlock upr ctx c = Some (e, c')"
  shows "same_limits c c' \<and> (bounded c \<longrightarrow> bounded c') \<and> (e = None \<longrightarrow> finite (dom (caps c'))
    \<and> card (dom (caps c')) < nat (maxCaps c) \<and> isOK (greeting c') \<and> int (length (greeting c')) \<le> maxLine c)"
  using read_caps_step [OF assms [unfolded readCapabilityBlock_def]] by simp

lemma readCapabilityBlock_returns:
  "ctx_Deadline ctx \<noteq> None \<Longrightarrow> bounded c \<Longrightarrow> returns (readCapabilityBlock upr ctx c)"
  unfolding readCapabilityBlock_def by (rule read_caps_returns)

lemma expect_OK_step:
  assumes "expect_OK ctx c = Some (e, c')"
  shows "same_limits c c' \<and> (bounded c \<longrightarrow> bounded c') \<and> hellos (inp c') \<subseteq> hellos (inp c)"
  using assms readLine_limits [of ctx c] cl_readLine_step [of ctx c]
  by (auto simp: expect_OK_def bind_eq_Some_conv)

lemma expect_OK_returns:
  "ctx_Deadline ctx \<noteq> None \<Longrightarrow> bounded c \<Longrightarrow> returns (expect_OK ctx c)"
  using cl_readLine_returns [of ctx c] by (auto simp: expect_OK_def returns_def)

section \<open>TLS\<close>

lemma tls_upgrade_step:
  assumes "tls_upgrade ctx c = Some (e, c')"
  shows "netio.more c' = netio.more c \<and> wtimeout c' = wtimeout c \<and> sent c' = sent c
    \<and> (ctx_Deadline ctx \<noteq> None \<longrightarrow> bounded c')
    \<and> (e = None \<longrightarrow> inp c' \<in> hellos (inp c))"
proof -
  define c1 where "c1 = (case ctx_Deadline ctx of None \<Rightarrow> c | Some dl \<Rightarrow> cl_SetDeadline (Some dl) c)"
  have 1: "netio.more c1 = netio.more c" "wtimeout c1 = wtimeout c" "sent c1 = sent c" "inp c1 = inp c"
    "ctx_Deadline ctx \<noteq> None \<longrightarrow> rdl c1 \<noteq> None \<and> wdl c1 \<noteq> None"
    by (auto simp: c1_def cl_SetDeadline_def split: option.splits)
  show ?thesis
  proof (cases "cancelled c1 \<or> ctx_done ctx")
    case True
    with assms have "c' = c1" "e \<noteq> None" by (auto simp: tls_upgrade_def c1_def [symmetric])
    with 1 show ?thesis by (auto simp: bounded_def)
  next
    case False
    then obtain c2 where h: "HandshakeContext (ctx_Deadline ctx) c1 = Some (e, c2)" and c': "c' = poked c2"
      using assms by (auto simp: tls_upgrade_def c1_def [symmetric])
    note f = tls_frame [OF h [unfolded HandshakeContext_def]]
    have "bounded c'" if "ctx_Deadline ctx \<noteq> None"
      unfolding c' using 1(5) f that by (intro poked_bounded) (auto simp: bounded_def)
    moreover have "inp c' \<in> hellos (inp c)" if "e = None"
      using tls_success [OF h [unfolded HandshakeContext_def that]] 1(4) by (auto simp: c' poked_def hellos_def)
    ultimately show ?thesis using 1 f by (auto simp: c' poked_def)
  qed
qed

lemma tls_upgrade_returns: "ctx_Deadline ctx \<noteq> None \<Longrightarrow> returns (tls_upgrade ctx c)"
proof -
  assume "ctx_Deadline ctx \<noteq> None"
  then have "min_deadline d (ctx_Deadline ctx) \<noteq> None" for d
    by (auto simp: min_deadline_def split: option.splits)
  from tls_deadline [OF this] show ?thesis
    by (auto simp: tls_upgrade_def HandshakeContext_def returns_def Let_def)
qed

text \<open>A successful upgrade: the block it ends with was read inside the encrypted stream, by a reader
  with an empty buffer.\<close>

lemma startTLS_cases:
  assumes "startTLS upr ctx c = Some (None, c')"
  obtains d where "rbuf d = []" "inp d \<in> hellos (inp c)" "cl_tls d" "wtimeout d = wtimeout c"
    "maxLine d = maxLine c" "maxCaps d = maxCaps c" "readCapabilityBlock upr ctx d = Some (None, c')"
proof -
  obtain c1 c2 c3 where 1: "writeCmd ctx ''STARTTLS'' c = Some (None, c1)"
    and 2: "expect_OK ctx c1 = Some (None, c2)" and 3: "tls_upgrade ctx c2 = Some (None, c3)"
    and 4: "readCapabilityBlock upr ctx (c3\<lparr>cl_tls := True, rbuf := [], wbuf := [], werr := None\<rparr>)
      = Some (None, c')"
    using assms by (auto simp: startTLS_def bind_eq_Some_conv split: if_splits option.splits)
  let ?d = "c3\<lparr>cl_tls := True, rbuf := [], wbuf := [], werr := None\<rparr>"
  have "netio.more c3 = netio.more c2" "wtimeout c3 = wtimeout c2" using tls_upgrade_step [OF 3] by auto
  then have "maxLine c3 = maxLine c2" "maxCaps c3 = maxCaps c2" by (cases c2; cases c3; simp)+
  moreover have "same_limits c1 c2" "inp c3 \<in> hellos (inp c1)"
    using expect_OK_step [OF 2] tls_upgrade_step [OF 3] by auto
  moreover have "netio.more c1 = netio.more c" "wtimeout c1 = wtimeout c" "inp c1 = inp c"
    using writeCmd_step [OF 1] by auto
  moreover from this have "maxLine c1 = maxLine c" "maxCaps c1 = maxCaps c" by (cases c1; cases c; simp)+
  ultimately show thesis using 4 \<open>wtimeout c3 = wtimeout c2\<close>
    by (intro that [of ?d]) (simp_all add: same_limits_def)
qed

section \<open>Whole operations\<close>

lemma startTLS_returns:
  assumes "ctx_Deadline ctx \<noteq> None" "bounded c"
  shows "returns (startTLS upr ctx c)"
  unfolding startTLS_def
  using assms writeCmd_step [of ctx "''STARTTLS''" c] expect_OK_step tls_upgrade_step
  by (auto intro!: returns_bind writeCmd_returns expect_OK_returns tls_upgrade_returns
      readCapabilityBlock_returns simp: bounded_def split: prod.splits option.splits)

lemma guard_returns:
  assumes "returns (run (guard_start ctx c))"
  shows "returns (guard ctx run c)"
  using assms by (auto simp: guard_def returns_def split: prod.splits)

lemma guard_start_bounded: "bounded c \<Longrightarrow> bounded (guard_start ctx c)"
  by (simp add: guard_start_def)

lemma connect_returns:
  assumes "ctx_Deadline ctx \<noteq> None" "bounded c"
  shows "returns (connect upr ctx opt c)"
  unfolding connect_def
  using assms readCapabilityBlock_step [of upr ctx c]
  by (auto intro!: returns_bind readCapabilityBlock_returns startTLS_returns split: prod.splits)

lemma client_of_fields:
  "bounded (client_of opt raw)" "wtimeout (client_of opt raw) = 0" "inp (client_of opt raw) = inp raw"
  "rbuf (client_of opt raw) = []" "wbuf (client_of opt raw) = []" "werr (client_of opt raw) = None"
  "\<not> poisoned (client_of opt raw)" "rdl (client_of opt raw) = rdl raw" "now (client_of opt raw) = now raw"
  "0 < maxLine (client_of opt raw)" "0 < maxCaps (client_of opt raw)"
  by (simp_all add: client_of_def netio.defs bounded_def)

section \<open>Capability blocks from a server that sends\<close>

definition receiving :: "ctx \<Rightarrow> client \<Rightarrow> bool" where
  "receiving ctx c \<longleftrightarrow> quiet (armReadDeadline ctx c) \<and> \<not> cancelled c"

lemma arm_arm: "armReadDeadline ctx ((armReadDeadline ctx c)\<lparr>inp := i, rbuf := b\<rparr>)
    = (armReadDeadline ctx c)\<lparr>inp := i, rbuf := b\<rparr>"
  by (simp add: armReadDeadline_def split: option.splits)

lemma cl_readLine_quiet:
  assumes "receiving ctx c" "pending c = v @ CRLF @ rest" "LF \<notin> set v" "int (length v) \<le> maxLine c"
  shows "\<exists>d i b. cl_readLine ctx c = Some (Inr v, c\<lparr>rdl := d, inp := i, rbuf := b\<rparr>)
    \<and> receiving ctx (c\<lparr>rdl := d, inp := i, rbuf := b\<rparr>) \<and> b @ stream i = rest"
proof -
  obtain d where d: "armReadDeadline ctx c = c\<lparr>rdl := d\<rparr>" by (rule arm_shape)
  have q: "quiet (c\<lparr>rdl := d\<rparr>)" "\<not> cancelled c" using assms(1) d by (simp_all add: receiving_def)
  have p: "pending (c\<lparr>rdl := d\<rparr>) = v @ CRLF @ rest" using assms(2) by (simp add: pending_def)
  from line_loop_quiet [OF q(1) p assms(3), where ?line0.0 = "[]" and m = "maxLine c"] assms(4) obtain c1 where
    1: "line_loop (maxLine c) [] (c\<lparr>rdl := d\<rparr>) = Some (Inr v, c1)" "pending c1 = rest" "quiet c1"
    "moved (c\<lparr>rdl := d\<rparr>) c1" by auto
  have c1: "c1 = c\<lparr>rdl := d, inp := inp c1, rbuf := rbuf c1\<rparr>" using 1(4) by (simp add: moved_def)
  then have "\<not> cancelled c1" using q(2) by (metis netio.select_convs(12) netio.surjective netio.update_convs(1,2,9))
  then have "cl_readLine ctx c = Some (Inr v, c1)" using 1(1) d by (simp add: cl_readLine_def poked_def)
  moreover have "receiving ctx c1"
    using 1(3) \<open>\<not> cancelled c1\<close> c1 arm_arm [of ctx "rbuf c1" "inp c1" c] d by (simp add: receiving_def)
  moreover have "rbuf c1 @ stream (inp c1) = rest" using 1(2) by (simp add: pending_def)
  ultimately show ?thesis using c1 by metis
qed

text \<open>What a listing of names and values comes to: the last value of a name, under its upper case.\<close>

definition advertised :: "(nat \<Rightarrow> nat) \<Rightarrow> (string \<times> string option) list \<Rightarrow> string \<rightharpoonup> string" where
  "advertised upr ps = map_of (rev (map (\<lambda>(n, v). (ToUpper upr n, case v of None \<Rightarrow> [] | Some x \<Rightarrow> x))
     (filter (\<lambda>(n, v). n \<noteq> []) ps)))"

lemma read_caps_quiet:
  assumes "receiving ctx c" "length ps < k"
    and "pending c = concat (map (\<lambda>p. pair_line p @ CRLF) ps) @ fin @ CRLF @ rest"
    and "\<forall>p\<in>set ps. LF \<notin> set (pair_line p) \<and> int (length (pair_line p)) \<le> maxLine c"
    and "LF \<notin> set fin" "int (length fin) \<le> maxLine c" "isOK fin"
  shows "\<exists>d i b. read_caps upr ctx k m c = Some (None, c\<lparr>rdl := d, inp := i, rbuf := b,
      caps := m ++ advertised upr ps, greeting := fin\<rparr>) \<and> b @ stream i = rest"
  using assms
proof (induction ps arbitrary: k m c)
  case Nil
  then obtain k' where k: "k = Suc k'" by (cases k) auto
  from Nil(3) have "pending c = fin @ CRLF @ rest" by simp
  from cl_readLine_quiet [OF Nil(1) this Nil(5,6)] obtain d i b where
    "cl_readLine ctx c = Some (Inr fin, c\<lparr>rdl := d, inp := i, rbuf := b\<rparr>)" "b @ stream i = rest"
    by blast
  with Nil(7) show ?case
    by (intro exI [of _ d] exI [of _ i] exI [of _ b]) (simp add: k advertised_def)
next
  case (Cons p ps)
  then obtain k' where k: "k = Suc k'" "length ps < k'" by (cases k) auto
  obtain n v where p: "p = (n, v)" by fastforce
  let ?v = "case v of None \<Rightarrow> [] | Some x \<Rightarrow> x"
  let ?m = "if n \<noteq> [] then m(ToUpper upr n \<mapsto> ?v) else m"
  let ?rest = "concat (map (\<lambda>p. pair_line p @ CRLF) ps) @ fin @ CRLF @ rest"
  have 0: "pending c = pair_line p @ CRLF @ ?rest" "LF \<notin> set (pair_line p)"
    "int (length (pair_line p)) \<le> maxLine c" using Cons.prems by simp_all
  from cl_readLine_quiet [OF Cons.prems(1) 0] obtain d i b where
    1: "cl_readLine ctx c = Some (Inr (pair_line p), c\<lparr>rdl := d, inp := i, rbuf := b\<rparr>)"
    "receiving ctx (c\<lparr>rdl := d, inp := i, rbuf := b\<rparr>)" "b @ stream i = ?rest" by blast
  let ?c = "c\<lparr>rdl := d, inp := i, rbuf := b\<rparr>"
  have s: "\<not> isOK (pair_line p)" "\<not> isStatus (pair_line p) ''NO''" "\<not> isStatus (pair_line p) ''BYE''"
    by (simp_all add: isOK_def pair_line_no_status)
  have "read_caps upr ctx k m c = read_caps upr ctx k' ?m ?c"
    using 1(1) s parseCapabilityLine_pair [of n v] by (simp add: k p)
  moreover have "pending ?c = ?rest" using 1(3) by (simp add: pending_def)
  from Cons.IH [OF 1(2) k(2) this _ Cons.prems(5) _ Cons.prems(7), of ?m] Cons.prems(4,6)
  obtain d' i' b' where "read_caps upr ctx k' ?m ?c = Some (None, ?c\<lparr>rdl := d', inp := i', rbuf := b',
      caps := ?m ++ advertised upr ps, greeting := fin\<rparr>)" "b' @ stream i' = rest" by auto
  moreover have "m ++ advertised upr (p # ps) = ?m ++ advertised upr ps"
    by (simp add: advertised_def p map_add_assoc [symmetric])
  ultimately show ?case by auto
qed

end
