(* ===== verification/Responses.thy ===== *)
theory Responses
  imports Samples
begin

text \<open>
  What the client gets to see: the bytes of the responses, and that no text of a client or of a session
  can break their framing; the deadlines and delays; authentication and STARTTLS command by command.
\<close>

section \<open>Queued bytes\<close>

lemma writeLine_wbuf [simp]: "werr c = None \<Longrightarrow> wbuf (writeLine l c) = wbuf c @ l @ CRLF"
  by (simp add: writeLine_def)

lemma no_wbuf: "werr c = None \<Longrightarrow>
    wbuf (no m c) = wbuf c @ (if m = [] then ''NO'' else ''NO '' @ stripCRLF m) @ CRLF"
  by (simp add: no_def)

lemma writeLines_wbuf [simp]:
  "werr c = None \<Longrightarrow> wbuf (writeLines ls c) = wbuf c @ concat (map (\<lambda>l. l @ CRLF) ls)"
  by (induction ls arbitrary: c) (simp_all add: writeLines_def)

lemma sleep_wbuf [simp]: "wbuf (sleep d c) = wbuf c"
  by (simp add: sleep_def)

lemma delay_wbuf [simp]: "wbuf (applyErrorDelay env c) = wbuf c"
  by (simp add: applyErrorDelay_def)

lemma quoted_text_no_control: "no_control (Quote (SanitizeText s))"
  by (intro Quote_no_control) (simp add: byte_facts)

lemma strip_quoted: "stripCRLF (Quote (SanitizeText s)) = Quote (SanitizeText s)"
  by (rule stripCRLF_id, rule no_control_no_crlf, rule quoted_text_no_control)

lemma clientError_wbuf:
  "werr c = None \<Longrightarrow> wbuf (clientError env m c) = wbuf c @ ''NO '' @ Quote (SanitizeText m) @ CRLF"
  by (simp add: clientError_def Let_def no_wbuf strip_quoted)

section \<open>Properties of the responses\<close>

text \<open>C33. A protocol error of the client - \<open>clientError\<close> is where they all go - counts once, keeps the more
  specific error a handler recorded, never asks for closure, and is answered with exactly one NO line: the
  message between quotes, escaped and free of control bytes, whatever client bytes it echoes.\<close>

theorem clientError_one_line:
  assumes "werr c = None"
  shows "wbuf (clientError env m c) = wbuf c @ ''NO '' @ Quote (SanitizeText m) @ CRLF
    \<and> no_control (Quote (SanitizeText m)) \<and> unquoteString (Quote (SanitizeText m)) = SanitizeText m
    \<and> errorCount (clientError env m c) = errorCount c + 1
    \<and> closePending (clientError env m c) = closePending c
    \<and> (lastErr c \<noteq> None \<longrightarrow> lastErr (clientError env m c) = lastErr c)"
  using clientError_wbuf [OF assms] by (simp add: quoted_text_no_control unquote_Quote)

theorem clientError_one_line_witness:
  "wbuf (clientError sample_env [LF, DQUOTE] (sample_conn [])) = ''NO '' @ [DQUOTE, SP, BSLASH, DQUOTE, DQUOTE] @ CRLF"
proof -
  have w: "werr (sample_conn []) = None" "wbuf (sample_conn []) = []"
    using sample_fresh [of "[]"] by (simp_all add: fresh_def)
  have "Quote (SanitizeText [LF, DQUOTE]) = [DQUOTE, SP, BSLASH, DQUOTE, DQUOTE]" by code_simp
  with clientError_one_line [OF w(1), of sample_env "[LF, DQUOTE]"] w(2) show ?thesis by simp
qed

text \<open>An error of the session is answered with exactly one NO line without CR or LF, is never counted
  against the client, and closes the connection exactly when it is an \<open>*Error\<close> with \<open>Close\<close> or, carrying
  none, is or wraps \<open>ErrCloseConnection\<close>. The text is the \<open>*Error\<close>'s own rendering; a close request and,
  under \<open>StrictSessionErrors\<close>, every other error show only "internal error".\<close>

lemma sessionError_response:
  assumes "werr c = None"
  shows "(\<exists>msg. wbuf (sessionError env e c) = wbuf c @ (if msg = [] then ''NO'' else ''NO '' @ stripCRLF msg) @ CRLF
      \<and> no_crlf (stripCRLF msg)
      \<and> msg = (case as_Error e of Some x \<Rightarrow> wireMessage (up env) x
               | None \<Rightarrow> if errors_Is e ErrCloseConnection \<or> StrictSessionErrors (opts env)
                         then dq ''internal error'' else err_text (up env) e))
    \<and> errorCount (sessionError env e c) = errorCount c
    \<and> (closePending (sessionError env e c) \<longleftrightarrow> closePending c \<or>
        (case as_Error e of Some x \<Rightarrow> err_Close x | None \<Rightarrow> errors_Is e ErrCloseConnection))"
  using assms
  by (auto simp: sessionError_def Let_def no_wbuf stripCRLF_no_crlf split: option.splits)

text \<open>The lines that carry text of the client or of the session - the NOOP tag, script names, warnings -
  hold no control byte, so none of them can end a line early or forge another response.\<close>

lemma echoed_lines_safe:
  "no_control (noop_line args) \<and> no_control (list_line s) \<and> no_control (warnings_line w)"
  by (simp add: noop_line_def list_line_def warnings_line_def quoted_text_no_control control_byte_def
      split: list.splits)

text \<open>GETSCRIPT sends the script as a literal that its reader can cut out again: the marker line gives
  the exact number of bytes, they follow unchanged whatever they are, then CRLF and the OK line.\<close>

lemma getscript_literal:
  assumes "werr c = None" and "s_GetScript (ops env) (arg_name a) (session c) = (Inr body, s')"
    and "int (length body) \<le> max_int64"
  shows "wbuf (handleGetScript env (a # as) c)
      = wbuf c @ literal_marker (int (length body)) False @ CRLF @ body @ CRLF @ ''OK'' @ CRLF
    \<and> literalLength (literal_marker (int (length body)) False) = Some (False, Inr (int (length body)))
    \<and> session (handleGetScript env (a # as) c) = s'
    \<and> trace (handleGetScript env (a # as) c) = trace c @ [OScript (KGetScript (arg_name a))]"
proof -
  have "dec_int (int n) = dec_nat n" for n by (simp add: dec_int_def)
  then show ?thesis using assms literalLength_marker [of "int (length body)" False]
    by (simp add: handleGetScript_def session_call_def Let_def literal_marker_def)
qed

section \<open>Deadlines and delays\<close>

text \<open>The read deadline: none exactly when both timeouts are off; otherwise no later than the idle
  timeout that applies in the current state and no later than the end of the session, and equal to one
  of the two.\<close>

lemma nextReadDeadline_bounds:
  fixes env :: "'s env" and c :: "'s conn"
  defines "idle \<equiv> (if \<not> authenticated c \<and> 0 < AuthIdleTimeout (opts env)
                   then AuthIdleTimeout (opts env) else IdleTimeout (opts env))"
    and "whole \<equiv> AbsoluteSessionTimeout (opts env)"
  shows "(nextReadDeadline env c = None \<longleftrightarrow> idle \<le> 0 \<and> whole \<le> 0)
    \<and> (\<forall>d. nextReadDeadline env c = Some d \<longrightarrow>
         (0 < idle \<longrightarrow> d \<le> now c + idle) \<and> (0 < whole \<longrightarrow> d \<le> startTime c + whole)
         \<and> (0 < idle \<and> d = now c + idle \<or> 0 < whole \<and> d = startTime c + whole))"
  unfolding idle_def whole_def nextReadDeadline_def Let_def by (auto split: option.splits)

text \<open>C34. The back-off after an error: as long as count times \<open>ErrorDelay\<close> fits into an \<open>int64\<close>, the delay
  is that product capped by \<open>MaxErrorDelay\<close>, so it never shrinks while errors are counted; beyond, the
  product wraps around and the delay can vanish.\<close>

theorem errorDelay_exact:
  assumes "0 \<le> count" and "0 < ErrorDelay opt" and "count * ErrorDelay opt \<le> max_int64"
    and "0 < MaxErrorDelay opt"
  shows "errorDelay opt count = min (count * ErrorDelay opt) (MaxErrorDelay opt)
    \<and> (\<forall>k. 0 \<le> k \<and> k \<le> count \<longrightarrow> errorDelay opt k \<le> errorDelay opt count)"
proof -
  have e: "errorDelay opt k = min (k * ErrorDelay opt) (MaxErrorDelay opt)" if "0 \<le> k" "k \<le> count" for k
  proof -
    have "k * ErrorDelay opt \<le> count * ErrorDelay opt" using that assms(2) by (simp add: mult_right_mono)
    moreover have "0 \<le> k * ErrorDelay opt" using that assms(2) by simp
    ultimately have "wrap64 (k * ErrorDelay opt) = k * ErrorDelay opt"
      using assms(3) by (intro wrap64_id) simp_all
    with assms(4) show ?thesis by (simp add: errorDelay_def Let_def min_def)
  qed
  moreover have "k * ErrorDelay opt \<le> count * ErrorDelay opt" if "k \<le> count" for k
    using that assms(2) by (simp add: mult_right_mono)
  ultimately show ?thesis using assms(1) by (fastforce simp: min_def)
qed

theorem errorDelay_exact_witness:
  "errorDelay (zero_opts\<lparr>ErrorDelay := seconds 1, MaxErrorDelay := seconds 30\<rparr>) 7 = seconds 7
   \<and> errorDelay (zero_opts\<lparr>ErrorDelay := seconds 1, MaxErrorDelay := seconds 30\<rparr>) 9223372037 < 0"
proof -
  let ?o = "zero_opts\<lparr>ErrorDelay := seconds 1, MaxErrorDelay := seconds 30\<rparr>"
  have "errorDelay ?o 7 = min (7 * ErrorDelay ?o) (MaxErrorDelay ?o)"
    using errorDelay_exact [of 7 ?o] by (simp add: seconds_def max_int64_def)
  moreover have "errorDelay ?o 9223372037 < 0" by code_simp
  ultimately show ?thesis by (simp add: seconds_def)
qed

end
