(* ===== verification/Bodies.thy ===== *)
theory Bodies
  imports Responses
begin

text \<open>
  Reading literal bodies from a client that sends: each of the three readers takes exactly the announced
  bytes and the rest of the line, however the bytes are cut into segments.
\<close>

section \<open>Exact reads\<close>

lemma quiet_moved: "moved c c' \<Longrightarrow> list_all is_Data (inp c') \<Longrightarrow> quiet c \<Longrightarrow> quiet c'"
proof -
  assume m: "moved c c'" and d: "list_all is_Data (inp c')" and q: "quiet c"
  have "rdl c' = rdl c" "now c' = now c"
    using m unfolding moved_def by (metis netio.surjective netio.update_convs(1,2) netio.select_convs)+
  with d q show ?thesis by (simp add: quiet_def)
qed

lemma read_n_quiet:
  "quiet c \<Longrightarrow> \<exists>s err i b. read_n n c = Some ((s, err), c\<lparr>inp := i, rbuf := b\<rparr>)
     \<and> list_all is_Data i \<and> (err \<noteq> None \<longrightarrow> i = [] \<and> b = [])"
proof (induction n c rule: read_n.induct)
  case (1 n c)
  consider "n = 0" | "n \<noteq> 0" "rbuf c \<noteq> []" | "n \<noteq> 0" "\<not> rbuf c \<noteq> []" by blast
  then show ?case
  proof cases
    case 1
    have "read_n n c = Some (([], None), c\<lparr>inp := inp c, rbuf := rbuf c\<rparr>)"
      using 1 by (subst read_n.simps) simp
    with \<open>quiet c\<close> show ?thesis unfolding quiet_def by blast
  next
    case 2
    let ?k = "min n (length (rbuf c))"
    have "quiet (c\<lparr>rbuf := drop ?k (rbuf c)\<rparr>)" using \<open>quiet c\<close> by (simp add: quiet_def)
    from 1(1) [OF 2 refl this] obtain s err i b where
      "read_n (n - ?k) (c\<lparr>rbuf := drop ?k (rbuf c)\<rparr>) = Some ((s, err), c\<lparr>inp := i, rbuf := b\<rparr>)"
      "list_all is_Data i" "err \<noteq> None \<longrightarrow> i = [] \<and> b = []" by auto
    then show ?thesis using 2 by (subst read_n.simps) (auto simp: Let_def)
  next
    case 3
    obtain r i where n: "net_read (max n bufio_size) c = Some (r, c\<lparr>inp := i\<rparr>)" and i: "list_all is_Data i"
      and r: "case r of Inl e \<Rightarrow> e = EOF \<and> i = [] | Inr d \<Rightarrow> True"
      using read_evs_quiet [of "inp c" c "max n bufio_size"] \<open>quiet c\<close> by (auto simp: net_read_def quiet_def)
    show ?thesis
    proof (cases r)
      case (Inl e)
      have "c\<lparr>inp := [], rbuf := []\<rparr> = c\<lparr>inp := []\<rparr>" using 3 by (cases c) simp
      with 3 n r Inl show ?thesis by (subst read_n.simps) (auto intro: exI [of _ "[]"])
    next
      case (Inr d)
      let ?k = "min n (length d)"
      have q: "quiet (c\<lparr>inp := i, rbuf := drop ?k d\<rparr>)" using \<open>quiet c\<close> i by (simp add: quiet_def)
      from 1(2) [OF 3 n refl Inr refl] q obtain s err i' b where
        "read_n (n - ?k) (c\<lparr>inp := i, rbuf := drop ?k d\<rparr>) = Some ((s, err), c\<lparr>inp := i', rbuf := b\<rparr>)"
        "list_all is_Data i'" "err \<noteq> None \<longrightarrow> i' = [] \<and> b = []" by auto
      with 3 n Inr show ?thesis by (subst read_n.simps) (auto simp: Let_def)
    qed
  qed
qed

lemma read_n_exact:
  assumes "quiet c" "pending c = body @ rest"
  shows "\<exists>i b. read_n (length body) c = Some ((body, None), c\<lparr>inp := i, rbuf := b\<rparr>)
    \<and> list_all is_Data i \<and> pending (c\<lparr>inp := i, rbuf := b\<rparr>) = rest"
proof -
  obtain s err i b where r: "read_n (length body) c = Some ((s, err), c\<lparr>inp := i, rbuf := b\<rparr>)"
    and i: "list_all is_Data i" and e: "err \<noteq> None \<longrightarrow> i = [] \<and> b = []"
    using read_n_quiet [OF assms(1)] by blast
  have "pending c = s @ pending (c\<lparr>inp := i, rbuf := b\<rparr>) \<and> length s \<le> length body
    \<and> (err = None \<longleftrightarrow> length s = length body)"
    using read_n_facts [OF r] unfolding read_ok_def by (elim conjE, intro conjI)
  then have f: "pending c = s @ pending (c\<lparr>inp := i, rbuf := b\<rparr>)" "length s \<le> length body"
    "err = None \<longleftrightarrow> length s = length body" by blast+
  have "err = None"
  proof (rule ccontr)
    assume n: "err \<noteq> None"
    with e have "i = []" "b = []" by simp_all
    with f(1) assms(2) have "s = body @ rest" by (simp add: pending_def)
    with f(2,3) n show False by simp
  qed
  with f(3) have "length s = length body" by simp
  moreover have "s @ pending (c\<lparr>inp := i, rbuf := b\<rparr>) = body @ rest" using f(1) assms(2) by simp
  ultimately have "s = body" "pending (c\<lparr>inp := i, rbuf := b\<rparr>) = rest"
    by (simp_all add: append_eq_append_conv)
  with r i \<open>err = None\<close> show ?thesis by blast
qed

text \<open>The readers differ from the loop only in how they name a failure.\<close>

definition exact_reader :: "nat \<Rightarrow> ('s conn \<Rightarrow> ((string \<times> goerr option) \<times> 's conn) option) \<Rightarrow> bool" where
  "exact_reader n rd \<longleftrightarrow> (\<forall>c s c'. read_n n c = Some ((s, None), c') \<longrightarrow> rd c = Some ((s, None), c'))"

lemma exact_readers: "exact_reader n (CopyN n)" "exact_reader n (ReadFull n)"
  by (simp_all add: exact_reader_def CopyN_def ReadFull_def)

section \<open>A calm connection\<close>

text \<open>The client only sends, and no deadline that the next read would arm has passed.\<close>

definition calm :: "'s env \<Rightarrow> 's conn \<Rightarrow> bool" where
  "calm env c \<longleftrightarrow> list_all is_Data (inp c) \<and> \<not> poisoned c \<and> \<not> expired (rdl c) (now c)
     \<and> \<not> expired (nextReadDeadline env c) (now c)"

lemma calm_arm: "calm env c \<Longrightarrow> quiet (armRead env c)"
  by (auto simp: calm_def quiet_def armRead_def setReadDeadline_def split: option.splits)

lemma nextReadDeadline_io [simp]:
  "nextReadDeadline env (c\<lparr>inp := i\<rparr>) = nextReadDeadline env c"
  "nextReadDeadline env (c\<lparr>rbuf := b\<rparr>) = nextReadDeadline env c"
  "nextReadDeadline env (c\<lparr>rdl := d\<rparr>) = nextReadDeadline env c"
  by (simp_all add: nextReadDeadline_def Let_def)

lemma armRead_shape: "\<exists>d. armRead env c = c\<lparr>rdl := d\<rparr>"
proof (cases "nextReadDeadline env c")
  case None
  then have "armRead env c = c\<lparr>rdl := rdl c\<rparr>" by (simp add: armRead_def)
  then show ?thesis ..
next
  case (Some d)
  then have "armRead env c = c\<lparr>rdl := if poisoned c then rdl c else Some d\<rparr>"
    by (simp add: armRead_def setReadDeadline_def)
  then show ?thesis ..
qed

text \<open>A body and its line: what is read, and that only the reader's fields change.\<close>

lemma read_body_calm:
  assumes "calm env c" and "pending c = body @ l @ rest" and "l = t @ CRLF" and "LF \<notin> set t"
    and "int (length l) \<le> MaxLineLength (opts env)"
    and rd: "exact_reader (length body) rd"
  shows "\<exists>i b. read_body rd env c = Some (Inr (body, l), c\<lparr>inp := i, rbuf := b, rdl := None\<rparr>)
    \<and> list_all is_Data i \<and> pending (c\<lparr>inp := i, rbuf := b, rdl := None\<rparr>) = rest"
proof -
  obtain d where a: "armRead env c = c\<lparr>rdl := d\<rparr>" using armRead_shape by blast
  note q = calm_arm [OF assms(1)]
  have "pending (armRead env c) = body @ l @ rest" using assms(2) by simp
  from read_n_exact [OF q this] obtain i b where
    1: "read_n (length body) (armRead env c) = Some ((body, None), c\<lparr>rdl := d, inp := i, rbuf := b\<rparr>)"
    and i: "list_all is_Data i" and p: "pending (c\<lparr>rdl := d, inp := i, rbuf := b\<rparr>) = l @ rest"
    unfolding a by auto
  let ?c1 = "c\<lparr>rdl := d, inp := i, rbuf := b\<rparr>"
  have q1: "quiet ?c1" using q i by (simp add: a quiet_def)
  have s: "spec_line (MaxLineLength (opts env)) (l @ rest) = (Inr l, rest)"
    using assms(3-5) spec_line_here [of "t @ [CR]" "MaxLineLength (opts env)" rest]
      snd_spec_line [of "MaxLineLength (opts env)" "l @ rest"] after_LF_here [of "t @ [CR]" rest]
    by (intro prod_eqI) (simp_all add: nth_append)
  obtain c2 where 2: "readLine env ?c1 = Some (Inr l, c2)" "moved ?c1 c2" "pending c2 = rest" "quiet c2"
    using read_line_quiet [OF q1, of "[]" "MaxLineLength (opts env)"] p s
    unfolding readLine_def readBoundedLine_def by auto
  from 2(2) have m: "c2 = c\<lparr>rdl := d, inp := inp c2, rbuf := rbuf c2\<rparr>"
    by (simp add: moved_def)
  have np: "\<not> poisoned c" using assms(1) by (simp add: calm_def)
  have "setReadDeadline None c2 = c\<lparr>inp := inp c2, rbuf := rbuf c2, rdl := None\<rparr>"
    using np by (subst m) (simp add: setReadDeadline_def)
  with rd [unfolded exact_reader_def, rule_format, OF 1] 2 have "read_body rd env c
      = Some (Inr (body, l), c\<lparr>inp := inp c2, rbuf := rbuf c2, rdl := None\<rparr>)"
    by (simp add: read_body_def)
  moreover have "list_all is_Data (inp c2)" using 2(4) by (simp add: quiet_def)
  moreover have "pending (c\<lparr>inp := inp c2, rbuf := rbuf c2, rdl := None\<rparr>) = rest"
    using 2(3) by (simp add: pending_def)
  ultimately show ?thesis by blast
qed

text \<open>A flush that the client takes.\<close>

definition writable :: "'s conn \<Rightarrow> bool" where
  "writable c \<longleftrightarrow> werr c = None \<and> wplan c = Accepts \<and> (0 < wtimeout c \<or> \<not> expired (wdl c) (now c))"

lemma Flush_writable:
  assumes "writable c" "wbuf c \<noteq> []"
  shows "Flush c = Some (None, (armWrite c)\<lparr>sent := sent c @ wbuf c, wbuf := [], wplan := Accepts\<rparr>)"
  using assms by (auto simp: writable_def Flush_def net_write_def armWrite_def full_write_def expired_def)

lemma armWrite_shape: "\<exists>d. armWrite c = c\<lparr>wdl := d\<rparr>"
proof (cases "0 < wtimeout c")
  case False
  then have "armWrite c = c\<lparr>wdl := wdl c\<rparr>" by (simp add: armWrite_def)
  then show ?thesis ..
qed (auto simp: armWrite_def)

lemma continuation_writable:
  assumes "nonSync \<or> writable c"
  shows "\<exists>c1. (if nonSync then Some (None, c) else Flush (writeLine ''+'' c)) = Some (None, c1)
    \<and> (if nonSync then c1 = c else \<exists>d. c1 = c\<lparr>wdl := d, sent := sent c @ wbuf c @ ''+'' @ CRLF,
         wbuf := [], wplan := Accepts\<rparr>)"
proof (cases nonSync)
  case False
  with assms have w: "writable c" by simp
  let ?w = "writeLine ''+'' c"
  have e: "werr c = None" using w by (simp add: writable_def)
  then have b: "?w = c\<lparr>wbuf := wbuf c @ ''+'' @ CRLF\<rparr>"
    by (simp add: writeLine_def WriteString_def)
  have "writable ?w" using w unfolding b by (simp add: writable_def)
  from Flush_writable [OF this] obtain d where
    "Flush ?w = Some (None, ?w\<lparr>wdl := d, sent := sent ?w @ wbuf ?w, wbuf := [], wplan := Accepts\<rparr>)"
    using armWrite_shape [of ?w] e by auto
  then show ?thesis using False unfolding b by auto
qed simp

lemma calm_written:
  "calm env (c\<lparr>wdl := d, sent := s, wbuf := w, wplan := p\<rparr>) = calm env c"
  by (simp add: calm_def nextReadDeadline_def Let_def)

lemma calm_read:
  "calm env c \<Longrightarrow> list_all is_Data i \<Longrightarrow> calm env (c\<lparr>inp := i, rbuf := b, rdl := None\<rparr>)"
  by (simp add: calm_def) (simp add: expired_def)

section \<open>The three readers\<close>

text \<open>What a reader leaves: the reader's own fields moved on, and for the synchronizing form the
  continuation line sent.\<close>

definition after_body :: "'s env \<Rightarrow> bool \<Rightarrow> 's conn \<Rightarrow> 's conn \<Rightarrow> bool" where
  "after_body env nonSync c c' \<longleftrightarrow> netio.more c' = netio.more c \<and> now c' = now c \<and> werr c' = werr c
     \<and> (if nonSync then sent c' = sent c \<and> wbuf c' = wbuf c
        else sent c' = sent c @ wbuf c @ ''+'' @ CRLF \<and> wbuf c' = [])"

lemma body_after_continuation:
  assumes "calm env c" "pending c = body @ l @ rest" "l = t @ CRLF" "LF \<notin> set t"
    "int (length l) \<le> MaxLineLength (opts env)" "nonSync \<or> writable c"
    and rd: "exact_reader (length body) rd"
  obtains c1 c2 where
    "(if nonSync then Some (None, c) else Flush (writeLine ''+'' c)) = Some (None, c1)"
    "read_body rd env c1 = Some (Inr (body, l), c2)" "calm env c2" "pending c2 = rest"
    "after_body env nonSync c c2" "nonSync \<Longrightarrow> wplan c2 = wplan c"
proof -
  obtain c1 where 1: "(if nonSync then Some (None, c) else Flush (writeLine ''+'' c)) = Some (None, c1)"
    and s: "if nonSync then c1 = c else \<exists>d. c1 = c\<lparr>wdl := d, sent := sent c @ wbuf c @ ''+'' @ CRLF,
         wbuf := [], wplan := Accepts\<rparr>"
    using continuation_writable [OF assms(6)] by blast
  have k: "calm env c1" using s assms(1) by (auto simp: calm_written split: if_splits)
  have p: "pending c1 = body @ l @ rest" using s assms(2) by (auto simp: pending_def split: if_splits)
  from read_body_calm [OF k p assms(3-5) rd] obtain i b where
    2: "read_body rd env c1 = Some (Inr (body, l), c1\<lparr>inp := i, rbuf := b, rdl := None\<rparr>)"
    "list_all is_Data i" "pending (c1\<lparr>inp := i, rbuf := b, rdl := None\<rparr>) = rest" by blast
  show ?thesis
  proof (rule that [OF 1 2(1) calm_read [OF k 2(2)] 2(3)])
    show "after_body env nonSync c (c1\<lparr>inp := i, rbuf := b, rdl := None\<rparr>)"
      using s by (auto simp: after_body_def split: if_splits)
    show "nonSync \<Longrightarrow> wplan (c1\<lparr>inp := i, rbuf := b, rdl := None\<rparr>) = wplan c"
      using s by simp
  qed
qed

end
