(* ===== verification/Commands.thy ===== *)
theory Commands
  imports Bodies
begin

text \<open>
  The commands, one by one: script arguments and literal names, SASL PLAIN, the authentication gate,
  STARTTLS, the hand-over of a connection, and what happens to a literal whose command is refused.
\<close>

section \<open>Literals\<close>

lemma literal_len: "int (length body) \<le> max_int64 \<Longrightarrow>
    literalLength (literal_marker (int (length body)) ns) = Some (ns, Inr (int (length body)))"
  by (rule literalLength_marker) simp_all

text \<open>C15. A PUTSCRIPT or CHECKSCRIPT literal is read back byte for byte: from a client that sends, however
  its bytes are segmented and whatever they are, the content is exactly the announced number of bytes,
  the rest of its line is dropped, the next byte is the next command's, and only the synchronizing form
  is answered, with one continuation line.\<close>

theorem script_literal_exact:
  assumes "calm env c" and "pending c = body @ CRLF @ rest" and "nonSync \<or> writable c"
    and "int (length body) \<le> max_int64" and "2 \<le> MaxLineLength (opts env)"
    and "\<not> tooBig env (int (length body))"
  shows "\<exists>c'. readScriptArgument env (literal_marker (int (length body)) nonSync) c = Some (Some body, c')
    \<and> pending c' = rest \<and> session c' = session c \<and> trace c' = trace c
    \<and> errorCount c' = errorCount c \<and> closePending c' = closePending c
    \<and> sent c' @ wbuf c' = sent c @ wbuf c @ (if nonSync then [] else ''+'' @ CRLF)"
proof -
  have p: "pending c = body @ ([] @ CRLF) @ rest" using assms(2) by simp
  have n: "LF \<notin> set ([] :: string)" and m: "int (length CRLF) \<le> MaxLineLength (opts env)"
    using assms(5) by simp_all
  have m': "int (length ([] @ CRLF)) \<le> MaxLineLength (opts env)" using m by simp
  obtain c1 c2 where
    1: "(if nonSync then Some (None, c) else Flush (writeLine ''+'' c)) = Some (None, c1)"
    "read_body (CopyN (length body)) env c1 = Some (Inr (body, CRLF), c2)" "pending c2 = rest"
    "after_body env nonSync c c2"
    by (rule body_after_continuation [OF assms(1) p refl n m' assms(3) exact_readers(1)])
      (simp only: append_Nil)
  have "io_step c c" by simp
  have extra: "netio.more c2 = netio.more c" using 1(4) by (simp add: after_body_def)
  have fields: "session c2 = session c" "trace c2 = trace c" "errorCount c2 = errorCount c"
    "closePending c2 = closePending c"
    using extra by (cases c; cases c2; simp)+
  have "readScriptArgument env (literal_marker (int (length body)) nonSync) c
      = Some (Some body, c2\<lparr>cmdStart := now c2\<rparr>)"
    using assms(6) 1(1,2) literal_len [OF assms(4), of nonSync]
    by (simp add: readScriptArgument_def tooBig_def Let_def)
  moreover have "sent c2 @ wbuf c2 = sent c @ wbuf c @ (if nonSync then [] else ''+'' @ CRLF)"
    using 1(4) by (auto simp: after_body_def split: if_splits)
  ultimately show ?thesis using 1(3) fields by (simp add: pending_def)
qed

lemma sample_calm: "list_all is_Data es \<Longrightarrow> calm sample_env (sample_conn es)"
proof -
  have "nextReadDeadline sample_env (sample_conn []) = Some (seconds (30 * 60))" by code_simp
  moreover have "nextReadDeadline sample_env (sample_conn es) = nextReadDeadline sample_env (sample_conn [])"
    unfolding sample_conn_def with_session_def fresh_conn_def
    by (simp add: nextReadDeadline_def Let_def)
  ultimately show "list_all is_Data es \<Longrightarrow> calm sample_env (sample_conn es)"
    by (simp add: calm_def sample_conn_def with_session_def fresh_conn_def expired_def seconds_def)
qed

lemma sample_pending: "pending (sample_conn es) = stream es"
  by (simp add: pending_def sample_conn_def with_session_def fresh_conn_def)

theorem script_literal_exact_witness:
  "\<exists>c'. readScriptArgument sample_env ''{6+}'' (sample_conn [Data ''a'', Data (CRLF @ ''{b}'' @ CRLF @ ''NOOP'')])
     = Some (Some (''a'' @ CRLF @ ''{b}''), c') \<and> pending c' = ''NOOP''"
proof -
  let ?es = "[Data ''a'', Data (CRLF @ ''{b}'' @ CRLF @ ''NOOP'')]"
  let ?body = "''a'' @ CRLF @ ''{b}''"
  have c: "calm sample_env (sample_conn ?es)" by (rule sample_calm) simp
  have p: "pending (sample_conn ?es) = ?body @ CRLF @ ''NOOP''" by (simp add: sample_pending)
  have "2 \<le> MaxLineLength (opts sample_env)" "\<not> tooBig sample_env (int (length ?body))" by code_simp+
  from script_literal_exact [OF c p _ _ this, of True]
  have "\<exists>c'. readScriptArgument sample_env (literal_marker (int (length ?body)) True) (sample_conn ?es)
     = Some (Some ?body, c') \<and> pending c' = ''NOOP''" by (auto simp: max_int64_def)
  moreover have "literal_marker (int (length ?body)) True = ''{6+}''" by code_simp
  ultimately show ?thesis by metis
qed

text \<open>A literal that is refused is refused before a byte of it is read or room made for it: for an
  oversized or malformed size the stream is untouched, nothing is flushed, and the connection is to be
  closed exactly when the client has committed the body - the non-synchronizing form - or, for an
  oversized one, when bytes wait behind the marker.\<close>

lemma script_literal_refused:
  assumes "literalLength arg = Some (nonSync, v)"
    and "case v of Inr n \<Rightarrow> tooBig env n | Inl e \<Rightarrow> True"
  shows "\<exists>c'. readScriptArgument env arg c = Some (None, c') \<and> inp c' = inp c \<and> rbuf c' = rbuf c
    \<and> sent c' = sent c \<and> trace c' = trace c \<and> session c' = session c
    \<and> (closePending c' \<longleftrightarrow> closePending c \<or> nonSync
         \<or> (case v of Inr n \<Rightarrow> rbuf c \<noteq> [] | Inl e \<Rightarrow> False))"
  using assms
  by (cases v) (auto simp: readScriptArgument_def tooBig_def Let_def)

lemma TrimSpace_tail:
  "extra \<noteq> [] \<Longrightarrow> TrimSpace (SP # quote_args extra @ CRLF) = quote_args extra"
proof -
  assume "extra \<noteq> []"
  have "TrimLeft (SP # quote_args extra @ CRLF) = quote_args extra @ CRLF"
    using TrimLeft_edged [OF quote_args_edged quote_args_nonempty [OF \<open>extra \<noteq> []\<close>]] by simp
  moreover have "TrimSpace (quote_args extra @ CRLF) = quote_args extra"
    by (rule TrimSpace_edged_CRLF [OF quote_args_edged])
  ultimately show ?thesis
    using TrimLeft_edged [OF quote_args_edged quote_args_nonempty [OF \<open>extra \<noteq> []\<close>], of CRLF]
    by (simp add: TrimSpace_def)
qed

text \<open>The rest of a command line behind a literal: nothing, or further quoted arguments.\<close>

definition tail_line :: "string list \<Rightarrow> string" where
  "tail_line extra = (if extra = [] then CRLF else SP # quote_args extra @ CRLF)"

lemma tail_line_tokens: "parseTokens (TrimSpace (tail_line extra)) = Inr (map Quote extra)"
proof (cases "extra = []")
  case True
  have "TrimSpace CRLF = []" using TrimSpace_edged_CRLF [of "[]"] by (simp add: edged_def)
  with True show ?thesis by (simp add: tail_line_def)
next
  case False
  with TrimSpace_tail parseTokens_quote_args show ?thesis by (simp add: tail_line_def)
qed

text \<open>C16. A string argument sent as a literal arrives as if it had been quoted: the handler gets the body
  itself back from \<open>unquoteString\<close>, whatever bytes it holds, followed by the arguments that come behind it
  on its line; nothing beyond that line is consumed.\<close>

theorem literal_argument_exact:
  assumes "calm env c" and "pending c = body @ tail_line extra @ rest" and "nonSync \<or> writable c"
    and "\<not> literalDeferred cmd (length args)" and "int (length body) \<le> MaxLineLength (opts env)"
    and "MaxLineLength (opts env) \<le> max_int64"
    and "int (length (tail_line extra)) \<le> MaxLineLength (opts env)" and "LF \<notin> set (quote_args extra)"
  shows "\<exists>c'. resolveLiteralArgs env cmd (args @ [literal_marker (int (length body)) nonSync]) c
      = Some (Some (args @ map Quote (body # extra)), c')
    \<and> pending c' = rest \<and> trace c' = trace c \<and> session c' = session c
    \<and> map unquoteString (map Quote (body # extra)) = body # extra"
proof -
  define t where "t = butlast (butlast (tail_line extra))"
  have t: "tail_line extra = t @ CRLF" "LF \<notin> set t"
    using assms(8) by (simp_all add: t_def tail_line_def butlast_append)
  let ?m = "literal_marker (int (length body)) nonSync"
  from body_after_continuation [OF assms(1,2) t assms(7,3) exact_readers(2)] obtain c1 c2 where
    1: "(if nonSync then Some (None, c) else Flush (writeLine ''+'' c)) = Some (None, c1)"
    "read_body (ReadFull (length body)) env c1 = Some (Inr (body, tail_line extra), c2)" "pending c2 = rest"
    "after_body env nonSync c c2" by metis
  have extra: "netio.more c2 = netio.more c" using 1(4) by (simp add: after_body_def)
  have fields: "session c2 = session c" "trace c2 = trace c" using extra by (cases c; cases c2; simp)+
  have m: "literalLength ?m = Some (nonSync, Inr (int (length body)))"
    by (rule literal_len) (use assms(5,6) in simp)
  have "resolve_step env (nonSync, Inr (int (length body))) c = Some (Some (body, map Quote extra), c2)"
    using assms(5) 1(1,2) by (simp add: resolve_step_def tail_line_tokens)
  then have "resolveLiteralArgs env cmd (args @ [?m]) c
      = resolveLiteralArgs env cmd (args @ map Quote (body # extra)) c2"
    using m assms(4) by (subst resolveLiteralArgs.simps) simp
  also have "\<dots> = Some (Some (args @ map Quote (body # extra)), c2)"
  proof -
    have "literalLength (last (args @ map Quote (body # extra))) = None"
      by (cases extra rule: rev_cases) (simp_all add: literalLength_Quote)
    then show ?thesis by (subst resolveLiteralArgs.simps) simp
  qed
  finally show ?thesis using 1(3) fields by (auto simp: srv.unq_Quote comp_def)
qed

theorem literal_argument_exact_witness:
  "\<exists>c'. resolveLiteralArgs sample_env ''RENAMESCRIPT'' [''{3+}''] (sample_conn [Data (''a'' @ [DQUOTE] @ ''b'' @ tail_line [''c''])])
     = Some (Some (map Quote [''a'' @ [DQUOTE] @ ''b'', ''c'']), c')"
proof -
  let ?es = "[Data (''a'' @ [DQUOTE] @ ''b'' @ tail_line [''c''])]"
  let ?body = "''a'' @ [DQUOTE] @ ''b''"
  have c: "calm sample_env (sample_conn ?es)" by (rule sample_calm) simp
  have p: "pending (sample_conn ?es) = ?body @ tail_line [''c''] @ []" by (simp add: sample_pending)
  have m: "MaxLineLength (opts sample_env) = 8192" by code_simp
  have l: "length (tail_line [''c'']) = 6" "LF \<notin> set (quote_args [''c''])" by code_simp+
  have d: "\<not> literalDeferred ''RENAMESCRIPT'' 0" by (simp add: literalDeferred_def)
  have "literal_marker (int (length ?body)) True = ''{3+}''" by code_simp
  with literal_argument_exact [OF c p, of True "''RENAMESCRIPT''" "[]"] d m l show ?thesis
    by (auto simp: max_int64_def)
qed

section \<open>Authentication\<close>

definition NUL :: char where "NUL = CHR 0x00"

definition plain_message :: "string \<Rightarrow> string \<Rightarrow> string \<Rightarrow> string" where
  "plain_message z u p = z @ NUL # u @ NUL # p"

lemma auth_finish_plain:
  assumes "NUL \<notin> set z" "NUL \<notin> set u" "NUL \<notin> set p" "p \<noteq> []"
  shows "auth_finish env (EncodeToString (plain_message z u p)) c =
    Option.bind (call_AuthenticatePlain env z u p c) (\<lambda>(err, c1). Some (auth_result env err c1))"
  using assms
  by (simp add: auth_finish_def Decode_Encode plain_message_def NUL_def Split_append Split_nosep)

lemma ToUpper_PLAIN: "ToUpper f ''PLAIN'' = ''PLAIN''"
  by (rule ToUpper_upper) (simp add: upper_case_def)

text \<open>C17. SASL PLAIN end to end: an AUTHENTICATE with an initial response, quoted or as a literal of either
  form, hands the session exactly the identity, user name and password that the client encoded, whatever
  bytes but NUL they hold, and nothing else happens before the session's answer; the stream stands at the
  next command.\<close>

theorem plain_credentials_exact:
  assumes "\<not> authenticated c" and "authAllowed env c" and "calm env c"
    and "NUL \<notin> set z" and "NUL \<notin> set u" and "NUL \<notin> set p" and "p \<noteq> []"
    and "resp = EncodeToString (plain_message z u p)"
    and "int (length resp) \<le> MaxAuthLiteral (opts env)" and "int (length resp) \<le> max_int64"
    and "2 \<le> MaxLineLength (opts env)" and "pending c = resp @ CRLF @ rest"
  shows "handleAuthenticate env [Quote ''PLAIN'', Quote resp] c =
      Option.bind (call_AuthenticatePlain env z u p c) (\<lambda>(err, c1). Some (auth_result env err c1))
    \<and> (\<exists>c'. pending c' = rest \<and> session c' = session c \<and> trace c' = trace c \<and> wbuf c' = wbuf c
        \<and> handleAuthenticate env [Quote ''PLAIN'', literal_marker (int (length resp)) nonSync] c =
            Option.bind (call_AuthenticatePlain env z u p c') (\<lambda>(err, c1). Some (auth_result env err c1)))"
proof -
  have f: "auth_finish env resp d =
      Option.bind (call_AuthenticatePlain env z u p d) (\<lambda>(err, c1). Some (auth_result env err c1))" for d
    unfolding assms(8) by (rule auth_finish_plain) (rule assms)+
  have q: "handleAuthenticate env [Quote ''PLAIN'', Quote resp] c = auth_finish env resp c"
    using assms(1,2)
    by (simp add: handleAuthenticate_def unquote_Quote ToUpper_PLAIN auth_initial_def literalLength_Quote)
  have n: "LF \<notin> set ([] :: string)" by simp
  have pd: "pending c = resp @ ([] @ CRLF) @ rest" using assms(12) by simp
  from body_after_continuation [OF assms(3) pd refl n _ _ exact_readers(2), of True] assms(11) obtain c2 where
    2: "read_body (ReadFull (length resp)) env c = Some (Inr (resp, CRLF), c2)" "pending c2 = rest"
    "after_body env True c c2" by auto
  have extra: "netio.more c2 = netio.more c" using 2(3) by (simp add: after_body_def)
  have fields: "session c2 = session c" "trace c2 = trace c" using extra by (cases c; cases c2; simp)+
  have "handleAuthenticate env [Quote ''PLAIN'', literal_marker (int (length resp)) nonSync] c
      = auth_finish env resp c2"
    using assms(1,2,9) 2(1) literal_len [OF assms(10), of nonSync]
    by (simp add: handleAuthenticate_def unquote_Quote ToUpper_PLAIN auth_initial_def auth_literal_def
        readAuthLiteral_def)
  with f q 2(2,3) fields show ?thesis by (auto simp: after_body_def)
qed

theorem plain_credentials_exact_witness:
  "\<exists>c'. handleAuthenticate sample_env
        [Quote ''PLAIN'', literal_marker (int (length (EncodeToString (plain_message [] ''u'' ''pw'')))) False]
        (sample_conn [Data (EncodeToString (plain_message [] ''u'' ''pw'') @ CRLF)])
      = Option.bind (call_AuthenticatePlain sample_env [] ''u'' ''pw'' c')
          (\<lambda>(err, c1). Some (auth_result sample_env err c1))"
proof -
  let ?r = "EncodeToString (plain_message [] ''u'' ''pw'')"
  let ?c = "sample_conn [Data (?r @ CRLF)]"
  have c: "calm sample_env ?c" by (rule sample_calm) simp
  have p: "pending ?c = ?r @ CRLF @ []" by (simp add: sample_pending)
  have a: "\<not> authenticated ?c" "authAllowed sample_env ?c" by code_simp+
  have n: "NUL \<notin> set []" "NUL \<notin> set ''u''" "NUL \<notin> set ''pw''" "''pw'' \<noteq> []" by (simp_all add: NUL_def)
  have l: "int (length ?r) \<le> MaxAuthLiteral (opts sample_env)" "int (length ?r) \<le> max_int64"
    "2 \<le> MaxLineLength (opts sample_env)" by code_simp+
  from plain_credentials_exact [OF a c n refl l p, of False] show ?thesis by blast
qed

section \<open>Literals of refused commands\<close>

text \<open>C37. A gap: a command that is refused before its handler reads a deferred literal - PUTSCRIPT or
  CHECKSCRIPT before authentication - leaves the body in the stream and keeps the connection open, so the
  body of a non-synchronizing literal, which the client has committed to, is executed as commands.\<close>

theorem refused_literal_executed:
  "(\<not> authenticated c \<and> cmd \<in> {''PUTSCRIPT'', ''CHECKSCRIPT''} \<longrightarrow>
      dispatch env ctx cmd args c = Some (False, clientError env ''Not authenticated'' c)
      \<and> pending (clientError env ''Not authenticated'' c) = pending c
      \<and> closePending (clientError env ''Not authenticated'' c) = closePending c)
    \<and> map_option (\<lambda>c. (trace c, errorCount c)) (serve sample_env (sample_conn
        (lines [''PUTSCRIPT '' @ dq ''a'' @ '' {12+}'', ''LOGIN u pw'', [], ''LOGOUT'']))) =
      Some ([OLogin ''u'' ''pw'' True, OSessionClose, ONetClose], 1)"
proof
  show "map_option (\<lambda>c. (trace c, errorCount c)) (serve sample_env (sample_conn
        (lines [''PUTSCRIPT '' @ dq ''a'' @ '' {12+}'', ''LOGIN u pw'', [], ''LOGOUT'']))) =
      Some ([OLogin ''u'' ''pw'' True, OSessionClose, ONetClose], 1)"
    by code_simp
qed (auto simp: dispatch_def script_commands_def)

theorem refused_literal_executed_witness:
  "dispatch sample_env None ''CHECKSCRIPT'' [''{3+}''] (sample_conn [])
     = Some (False, clientError sample_env ''Not authenticated'' (sample_conn []))"
proof -
  have "\<not> authenticated (sample_conn [])" using sample_fresh [of "[]"] by (simp add: fresh_def)
  with refused_literal_executed [of "sample_conn []" "''CHECKSCRIPT''" sample_env None "[''{3+}'']"]
  show ?thesis by simp
qed

end
