(* ===== verification/ClientProps.thy ===== *)
theory ClientProps
  imports ClientRuns Commands
begin

text \<open>
  The properties of the client, alone and against the server of this library: what it reads, when its
  operations return, what a cancellation and a STARTTLS leave behind, and that the two sides understand
  each other's capability lines and SASL messages.
\<close>

section \<open>Reading\<close>

text \<open>C29. From a server that sends, a response line that ends in CRLF is returned without it, however the
  bytes are cut into segments and across the buffer's 4096-byte boundary, even with the CR at its end;
  nothing behind the line is consumed. A line beyond \<open>MaxLineLength\<close> is an error.\<close>

theorem client_readLine_exact:
  assumes "receiving ctx c" and "pending c = v @ CRLF @ rest" and "LF \<notin> set v"
  shows "(int (length v) \<le> maxLine c \<longrightarrow>
      (\<exists>c'. cl_readLine ctx c = Some (Inr v, c') \<and> pending c' = rest \<and> receiving ctx c'))
    \<and> (maxLine c < int (length v) \<longrightarrow>
      (\<exists>e c'. cl_readLine ctx c = Some (Inl (ClientFailure e), c')))"
proof (intro conjI impI)
  assume "int (length v) \<le> maxLine c"
  from cl_readLine_quiet [OF assms this] obtain d i b where
    "cl_readLine ctx c = Some (Inr v, c\<lparr>rdl := d, inp := i, rbuf := b\<rparr>)"
    "receiving ctx (c\<lparr>rdl := d, inp := i, rbuf := b\<rparr>)" "b @ stream i = rest" by blast
  then show "\<exists>c'. cl_readLine ctx c = Some (Inr v, c') \<and> pending c' = rest \<and> receiving ctx c'"
    by (intro exI [of _ "c\<lparr>rdl := d, inp := i, rbuf := b\<rparr>"]) (simp add: pending_def)
next
  assume l: "maxLine c < int (length v)"
  obtain d where d: "armReadDeadline ctx c = c\<lparr>rdl := d\<rparr>" by (rule arm_shape)
  have "quiet (c\<lparr>rdl := d\<rparr>)" "pending (c\<lparr>rdl := d\<rparr>) = v @ CRLF @ rest"
    using assms(1,2) d by (simp_all add: receiving_def pending_def)
  from line_loop_long [OF this assms(3), where ?line0.0 = "[]" and m = "maxLine c"] l d
  show "\<exists>e c'. cl_readLine ctx c = Some (Inl (ClientFailure e), c')"
    by (auto simp: cl_readLine_def)
qed

text \<open>A client of a server that has these events in store.\<close>

definition sample_raw :: "net_ev list \<Rightarrow> netio" where
  "sample_raw es = \<lparr>inp = es, rbuf = [], sent = [], wbuf = [], werr = None, wplan = Accepts,
     wtimeout = 0, now = 0, rdl = None, wdl = None, poisoned = False, cancelled = False, tlsPending = False\<rparr>"

definition plain_options :: client_options where
  "plain_options = \<lparr>cl_TLSConfig = False, cl_STARTTLS = False, cl_MaxLineLength = 0,
     cl_MaxCapabilityLines = 0\<rparr>"

definition sample_client :: "net_ev list \<Rightarrow> client" where
  "sample_client es = client_of plain_options (sample_raw es)"

definition background :: ctx where
  "background = \<lparr>ctx_Deadline = None, ctx_done = False, ctx_prompt = False, ctx_wakes = False\<rparr>"

definition until :: "int \<Rightarrow> ctx" where
  "until d = \<lparr>ctx_Deadline = Some d, ctx_done = False, ctx_prompt = False, ctx_wakes = True\<rparr>"

lemma sample_client_fields:
  "pending (sample_client es) = stream es" "maxLine (sample_client es) = 8192"
  "maxCaps (sample_client es) = 64" "bounded (sample_client es)" "wtimeout (sample_client es) = 0"
  "list_all is_Data es \<Longrightarrow> receiving background (sample_client es)"
  by (simp_all add: sample_client_def client_of_def sample_raw_def plain_options_def netio.defs
      pending_def receiving_def quiet_def background_def armReadDeadline_def expired_def bounded_def)

theorem client_readLine_exact_witness:
  "\<exists>c'. cl_readLine background (sample_client [Data ''OK'', Data [CR], Data (LF # ''NO'')]) = Some (Inr ''OK'', c')
     \<and> pending c' = ''NO''"
proof -
  let ?es = "[Data ''OK'', Data [CR], Data (LF # ''NO'')]"
  have "receiving background (sample_client ?es)" by (rule sample_client_fields) simp
  moreover have "pending (sample_client ?es) = ''OK'' @ CRLF @ ''NO''" by (simp add: sample_client_fields)
  ultimately show ?thesis
    using client_readLine_exact [of background "sample_client ?es" "''OK''" "''NO''"]
    by (auto simp: sample_client_fields)
qed

section \<open>Parsing\<close>

text \<open>C30. Client and server agree on quoted strings although each has a routine of its own: \<open>unquote\<close> is
  \<open>unquoteString\<close> on every string, \<open>closingQuote\<close> finds the quote the server's tokenizer finds, and both
  read back whatever \<open>Quote\<close> wrote.\<close>

theorem unquote_agrees:
  "unquote s = unquoteString s \<and> closingQuote (DQUOTE # s) = map_option Suc (scan_quote s False)
    \<and> unquote (Quote s) = s \<and> closingQuote (Quote s @ t) = Some (length (Quote s) - 1)"
proof -
  have "(+) (Suc 0) = Suc" by auto
  then show ?thesis
    by (simp add: unquote_server unquote_Quote closingQuote_Quote)
       (simp add: closingQuote_def closing_from_scan)
qed

text \<open>C31. A response line is a status response exactly when its first token, up to a space or a
  parenthesis, is the status; so no capability line of a server - \<open>NOTIFY\<close>, \<open>"NO"\<close> - is taken for one,
  and the last of the four tests of \<open>isStatus\<close> is covered by the second.\<close>

theorem isStatus_exact:
  "(\<forall>status\<in>{''OK'', ''NO'', ''BYE''}. isStatus line status \<longleftrightarrow> status_token line = status)
    \<and> (\<forall>status\<in>{''OK'', ''NO'', ''BYE''}. \<not> isStatus (pair_line p) status)
    \<and> (HasPrefix line (status @ '' ('') \<longrightarrow> HasPrefix line (status @ '' ''))"
proof (intro conjI ballI impI)
  fix st assume "st \<in> {''OK'', ''NO'', ''BYE''}"
  then show "isStatus line st \<longleftrightarrow> status_token line = st" by (auto simp: isStatus_token)
next
  fix st assume "st \<in> {''OK'', ''NO'', ''BYE''}"
  then show "\<not> isStatus (pair_line p) st" by (auto simp: pair_line_no_status)
qed (auto simp: HasPrefix_iff)

theorem isStatus_exact_witness:
  "\<not> isStatus ''NOTIFY'' ''NO'' \<and> isStatus ''NO(QUOTA)'' ''NO'' \<and> isStatus ''NO (QUOTA) x'' ''NO''"
proof -
  have "status_token ''NOTIFY'' \<noteq> ''NO''" "status_token ''NO(QUOTA)'' = ''NO''"
    "status_token ''NO (QUOTA) x'' = ''NO''" by code_simp+
  moreover have "isStatus line ''NO'' \<longleftrightarrow> status_token line = ''NO''" for line
    using isStatus_exact [of line] by blast
  ultimately show ?thesis by simp
qed

section \<open>The greeting of the server\<close>

text \<open>The listing the server means to send, as names and values.\<close>

definition capability_pairs :: "'s env \<Rightarrow> 's conn \<Rightarrow> (string \<times> string option) list" where
  "capability_pairs env c =
     [(''IMPLEMENTATION'', Some (Implementation (opts env))), (''VERSION'', Some ''1.0''),
      (''SIEVE'', Some (Join (SieveExtensions (opts env)) '' ''))]
     @ (if startTLSAvailable env c then [(''STARTTLS'', None)] else [])
     @ [(''SASL'', Some (if authAllowed env c then ''PLAIN'' else []))]
     @ (if 0 < MaxScriptSize (opts env)
        then [(''MAXSCRIPTSIZE'', Some (dec_int (MaxScriptSize (opts env))))] else [])
     @ map (\<lambda>x. (cap_Name x, if cap_HasValue x then Some (cap_Value x) else None))
         (ExtraCapabilities (opts env))"

lemma dec_int_plain: "DQUOTE \<notin> set (dec_int n)" "BSLASH \<notin> set (dec_int n)" "LF \<notin> set (dec_int n)"
  using dec_nat_digits [of "nat n"] dec_nat_digits [of "nat (- n)"]
  by (auto simp: dec_int_def list_all_iff is_digit_def)

lemma capability_lines_pairs: "capability_lines env c = map pair_line (capability_pairs env c)"
proof -
  have "map capability_line cs = map pair_line (map (\<lambda>x. (cap_Name x, if cap_HasValue x
      then Some (cap_Value x) else None)) cs)" for cs
    by (auto simp: capability_line_def pair_line_def)
  then show ?thesis
    by (simp add: capability_lines_def capability_pairs_def pair_line_def Let_def Quote_plain dec_int_plain)
qed

lemma sendGreeting_wbuf:
  assumes "werr c = None"
  shows "wbuf (sendGreeting env c) = wbuf c @ concat (map (\<lambda>p. pair_line p @ CRLF) (capability_pairs env c))
    @ greeting_line env c @ CRLF"
proof -
  have "greeting_line env (sendCapabilityBlock env c) = greeting_line env c"
    using responds_capability by (simp add: greeting_line_def startTLSAvailable_def sendCapabilityBlock_def)
  then show ?thesis using assms
    by (simp add: sendGreeting_def Let_def sendCapabilityBlock_def capability_lines_pairs comp_def)
qed

lemma isOK_greeting: "isOK (greeting_line env c)"
  by (simp add: isOK_def isStatus_def greeting_line_def HasPrefix_def)

text \<open>C6. The greeting this server sends is understood by this client: from exactly those bytes, in any
  segmentation, \<open>readCapabilityBlock\<close> returns the listed capabilities with their values, whatever
  bytes but LF these hold, and the OK line; the client sees STARTTLS when the server would accept it,
  and SASL PLAIN only where the server allows authentication.\<close>

theorem greeting_understood:
  assumes "werr sc = None" and "wbuf sc = []" and "receiving ctx c"
    and "pending c = wbuf (sendGreeting env sc) @ rest"
    and "\<forall>p\<in>set (capability_pairs env sc). LF \<notin> set (pair_line p) \<and> int (length (pair_line p)) \<le> maxLine c"
    and "LF \<notin> set (Greeting (opts env))" and "int (length (greeting_line env sc)) \<le> maxLine c"
    and "int (length (capability_pairs env sc)) < maxCaps c"
  shows "\<exists>c'. readCapabilityBlock upr ctx c = Some (None, c') \<and> pending c' = rest
    \<and> Capabilities c' = advertised upr (capability_pairs env sc) \<and> greeting c' = greeting_line env sc
    \<and> (ExtraCapabilities (opts env) = [] \<longrightarrow>
        (Capabilities c' ''STARTTLS'' \<noteq> None \<longleftrightarrow> startTLSAvailable env sc)
      \<and> (Capabilities c' ''SASL'' = Some ''PLAIN'' \<longleftrightarrow> authAllowed env sc)
      \<and> Capabilities c' ''SIEVE'' = Some (Join (SieveExtensions (opts env)) '' ''))"
proof -
  have p: "pending c = concat (map (\<lambda>p. pair_line p @ CRLF) (capability_pairs env sc))
      @ greeting_line env sc @ CRLF @ rest"
    using assms(1,2,4) by (simp add: sendGreeting_wbuf)
  have g: "LF \<notin> set (greeting_line env sc)" using assms(6) by (simp add: greeting_line_def)
  have k: "length (capability_pairs env sc) < nat (maxCaps c)" using assms(8) by simp
  obtain d i b where r: "readCapabilityBlock upr ctx c = Some (None, c\<lparr>rdl := d, inp := i, rbuf := b,
      caps := Map.empty ++ advertised upr (capability_pairs env sc), greeting := greeting_line env sc\<rparr>)"
    and b: "b @ stream i = rest"
    using read_caps_quiet [OF assms(3) k p assms(5) g assms(7) isOK_greeting]
    unfolding readCapabilityBlock_def by blast
  have u: "ToUpper upr ''STARTTLS'' = ''STARTTLS''" "ToUpper upr ''SASL'' = ''SASL''"
    "ToUpper upr ''SIEVE'' = ''SIEVE''" "ToUpper upr ''IMPLEMENTATION'' = ''IMPLEMENTATION''"
    "ToUpper upr ''VERSION'' = ''VERSION''" "ToUpper upr ''MAXSCRIPTSIZE'' = ''MAXSCRIPTSIZE''"
    by (rule ToUpper_upper, simp add: upper_case_def)+
  have "(advertised upr (capability_pairs env sc) ''STARTTLS'' \<noteq> None \<longleftrightarrow> startTLSAvailable env sc)
      \<and> (advertised upr (capability_pairs env sc) ''SASL'' = Some ''PLAIN'' \<longleftrightarrow> authAllowed env sc)
      \<and> advertised upr (capability_pairs env sc) ''SIEVE'' = Some (Join (SieveExtensions (opts env)) '' '')"
    if "ExtraCapabilities (opts env) = []"
    using that by (simp add: advertised_def capability_pairs_def u)
  with r b show ?thesis by (auto simp: pending_def Capabilities_def)
qed

theorem greeting_understood_witness:
  "\<exists>c'. readCapabilityBlock id background
       (sample_client [Data (wbuf (sendGreeting sample_env (sample_conn [])))]) = Some (None, c')
     \<and> Capabilities c' ''SIEVE'' = Some ''fileinto'' \<and> Capabilities c' ''SASL'' = Some ''PLAIN''"
proof -
  let ?sc = "sample_conn []" and ?c = "sample_client [Data (wbuf (sendGreeting sample_env (sample_conn [])))]"
  have w: "werr ?sc = None" "wbuf ?sc = []" using sample_fresh [of "[]"] by (simp_all add: fresh_def)
  have r: "receiving background ?c" by (rule sample_client_fields) simp
  have p: "pending ?c = wbuf (sendGreeting sample_env ?sc) @ []" by (simp add: sample_client_fields)
  have "\<forall>p\<in>set (capability_pairs sample_env ?sc). LF \<notin> set (pair_line p) \<and> int (length (pair_line p)) \<le> 8192"
    "LF \<notin> set (Greeting (opts sample_env))" "int (length (greeting_line sample_env ?sc)) \<le> 8192"
    "int (length (capability_pairs sample_env ?sc)) < 64" by code_simp+
  moreover have "ExtraCapabilities (opts sample_env) = []" "authAllowed sample_env ?sc"
    "SieveExtensions (opts sample_env) = [''fileinto'']" by code_simp+
  ultimately show ?thesis
    using greeting_understood [OF w r p, of id] by (auto simp: sample_client_fields)
qed

section \<open>SASL PLAIN across the wire\<close>

lemma auth_line_args: "auth_line z u p = ''AUTHENTICATE'' @ SP # quote_args [''PLAIN'', EncodeToString (plain_message z u p)]"
  by (simp add: auth_line_def plain_payload_def plain_message_def NUL_def Quote_plain)

lemma auth_line_parsed:
  "parseLine f (auth_line z u p @ CRLF)
     = (''AUTHENTICATE'', Inr [Quote ''PLAIN'', Quote (EncodeToString (plain_message z u p))])"
proof -
  have "list_all (\<lambda>c. upper_case c \<and> \<not> ascii_space c) ''AUTHENTICATE''"
    by (simp add: upper_case_def ascii_space_def)
  from parseLine_quoted [OF _ this, of f "''PLAIN''" "[EncodeToString (plain_message z u p)]"]
  show ?thesis by (simp add: auth_line_args)
qed

lemma auth_handled:
  assumes "\<not> authenticated c" "authAllowed env c"
  shows "handleAuthenticate env [Quote ''PLAIN'', Quote resp] c = auth_finish env resp c"
  using assms
  by (simp add: handleAuthenticate_def unquote_Quote ToUpper_PLAIN auth_initial_def literalLength_Quote)

lemma writeCmd_sent:
  assumes "writeCmd ctx line c = Some (None, c')"
  shows "sent c' = sent c @ wbuf c @ line @ CRLF"
proof -
  have e: "werr (armWriteDeadline ctx c) = None"
    using assms by (auto simp: writeCmd_def Let_def split: option.splits)
  with assms have "Flush (WriteString (line @ CRLF) (armWriteDeadline ctx c)) = Some (None, c')"
    by (auto simp: writeCmd_def Let_def bind_eq_Some_conv)
  moreover have "wbuf (armWriteDeadline ctx c) = wbuf c"
    by (auto simp: armWriteDeadline_def split: option.splits)
  ultimately show ?thesis using Flush_facts e arm_write_frame(3) [of ctx c]
    by (metis WriteString_frame(7,14) append.assoc append_Nil2)
qed

text \<open>C5. A login across the wire: when the client's \<open>AuthenticatePlain\<close> succeeds it has sent one line,
  and that line, parsed and dispatched by this server, calls the session's \<open>AuthenticatePlain\<close> with
  exactly the identity, user name and password given to the client - bytes of any value but NUL - and
  nothing else.\<close>

theorem client_login_reaches_session:
  assumes "cl_AuthenticatePlain ctx z u p c = Some (None, c')" and "wbuf c = []"
    and "NUL \<notin> set z" and "NUL \<notin> set u" and "NUL \<notin> set p" and "p \<noteq> []"
    and "\<not> authenticated sc" and "authAllowed env sc"
  shows "\<exists>line args. sent c' = sent c @ line \<and> parseLine (up env) line = (''AUTHENTICATE'', Inr args)
    \<and> handleAuthenticate env args sc =
        Option.bind (call_AuthenticatePlain env z u p sc) (\<lambda>(err, c1). Some (auth_result env err c1))"
proof -
  obtain c1 c2 where 1: "writeCmd ctx (auth_line z u p) (guard_start ctx c) = Some (None, c1)"
    and 2: "expect_OK ctx c1 = Some (None, c2)" and c': "c' = guard_stop ctx c2"
    using assms(1) by (auto simp: cl_AuthenticatePlain_def guard_def bind_eq_Some_conv split: if_splits)
  have g: "sent (guard_start ctx c) = sent c" "wbuf (guard_start ctx c) = wbuf c"
    by (simp_all add: guard_start_def poison_def)
  have "sent c' = sent c2" by (simp add: c' guard_stop_def poison_def)
  also have "\<dots> = sent c1" using expect_OK_step [OF 2] by (simp add: same_limits_def)
  also have "\<dots> = sent c @ auth_line z u p @ CRLF" using writeCmd_sent [OF 1] g assms(2) by simp
  finally have s: "sent c' = sent c @ auth_line z u p @ CRLF" .
  have "handleAuthenticate env [Quote ''PLAIN'', Quote (EncodeToString (plain_message z u p))] sc =
      Option.bind (call_AuthenticatePlain env z u p sc) (\<lambda>(err, c1). Some (auth_result env err c1))"
    using auth_handled [OF assms(7,8)] auth_finish_plain [OF assms(3-6)] by simp
  with s auth_line_parsed show ?thesis by blast
qed

theorem client_login_reaches_session_witness:
  "\<exists>c' line args. cl_AuthenticatePlain background [] ''u'' ''pw'' (sample_client [Data (''OK'' @ CRLF)]) = Some (None, c')
     \<and> sent c' = line \<and> parseLine id line = (''AUTHENTICATE'', Inr args)
     \<and> map_option trace (handleAuthenticate sample_env args (sample_conn [])) = Some [OAuthPlain [] ''u'' ''pw'' True]"
proof -
  let ?c = "sample_client [Data (''OK'' @ CRLF)]" and ?sc = "sample_conn []"
  have "map_option (\<lambda>(e, c). (e, poisoned c)) (cl_AuthenticatePlain background [] ''u'' ''pw'' ?c) = Some (None, False)"
    "map_option (\<lambda>(e, c). trace (auth_result sample_env e c)) (call_AuthenticatePlain sample_env [] ''u'' ''pw'' ?sc)
       = Some [OAuthPlain [] ''u'' ''pw'' True]"
    by code_simp+
  then obtain c' e d where r: "cl_AuthenticatePlain background [] ''u'' ''pw'' ?c = Some (None, c')"
    and a: "call_AuthenticatePlain sample_env [] ''u'' ''pw'' ?sc = Some (e, d)"
    "trace (auth_result sample_env e d) = [OAuthPlain [] ''u'' ''pw'' True]" by auto
  have f: "wbuf ?c = []" "sent ?c = []" "\<not> authenticated ?sc" "authAllowed sample_env ?sc" by code_simp+
  have n: "NUL \<notin> set []" "NUL \<notin> set ''u''" "NUL \<notin> set ''pw''" "''pw'' \<noteq> []" by (simp_all add: NUL_def)
  have "up sample_env = id" by (simp add: sample_env_def env_of_def)
  with client_login_reaches_session [OF r f(1) n f(3,4)] f(2) a r show ?thesis by auto
qed

section \<open>Deadlines and cancellation\<close>

text \<open>Each operation is a guarded write of one line and a read.\<close>

lemma guarded_write_returns:
  assumes "ctx_Deadline ctx \<noteq> None" "bounded c"
    and "\<And>e c1. bounded c1 \<Longrightarrow> returns (f (e, c1))"
  shows "returns (guard ctx (\<lambda>c. Option.bind (writeCmd ctx line c) f) c)"
proof (intro guard_returns returns_bind)
  have b: "bounded (guard_start ctx c)" by (rule guard_start_bounded [OF assms(2)])
  show "returns (writeCmd ctx line (guard_start ctx c))" by (rule writeCmd_returns [OF assms(1) b])
  fix x assume "writeCmd ctx line (guard_start ctx c) = Some x"
  with writeCmd_step [of ctx line "guard_start ctx c" "fst x" "snd x"] b have "bounded (snd x)" by simp
  from assms(3) [OF this, of "fst x"] show "returns (f x)" by simp
qed

lemma Cmd_returns: "ctx_Deadline ctx \<noteq> None \<Longrightarrow> bounded c \<Longrightarrow> returns (Cmd ctx line c)"
  unfolding Cmd_def by (rule guarded_write_returns) (auto intro: cl_readLine_returns split: option.splits)

lemma Capability_returns: "ctx_Deadline ctx \<noteq> None \<Longrightarrow> bounded c \<Longrightarrow> returns (cl_Capability upr ctx c)"
  unfolding cl_Capability_def
  by (rule guarded_write_returns)
     (auto intro!: returns_bind readCapabilityBlock_returns split: option.splits prod.splits)

lemma AuthenticatePlain_returns:
  "ctx_Deadline ctx \<noteq> None \<Longrightarrow> bounded c \<Longrightarrow> returns (cl_AuthenticatePlain ctx z u p c)"
  unfolding cl_AuthenticatePlain_def
  by (rule guarded_write_returns) (auto intro: expect_OK_returns)

lemma Cmd_bounded:
  assumes "bounded c" "Cmd ctx line c = Some (r, c')"
  shows "bounded c'"
proof -
  obtain e c1 where 1: "writeCmd ctx line (guard_start ctx c) = Some (e, c1)"
    using assms(2) by (auto simp: Cmd_def guard_def bind_eq_Some_conv)
  have b: "bounded c1" using writeCmd_step [OF 1] guard_start_bounded [OF assms(1)] by simp
  have "\<exists>c2. bounded c2 \<and> c' = guard_stop ctx c2"
    using assms(2) 1 b cl_readLine_step [of ctx c1]
    by (auto simp: Cmd_def guard_def bind_eq_Some_conv split: option.splits)
  then show ?thesis by (auto simp: guard_stop_def)
qed

lemma NewClient_returns:
  assumes "ctx_Deadline ctx \<noteq> None"
  shows "returns (NewClient upr ctx raw opt)"
proof -
  have c: "returns (guard ctx (connect upr ctx opt) d)" if "bounded d" for d
    by (intro guard_returns connect_returns assms guard_start_bounded that)
  have "returns (Option.bind (tls_upgrade ctx d) (\<lambda>(err, c1). case err of
      Some e \<Rightarrow> Some (Some (NetFailure e), cl_Close c1)
    | None \<Rightarrow> guard ctx (connect upr ctx opt) (c1\<lparr>cl_tls := True\<rparr>)))" for d
  proof (intro returns_bind tls_upgrade_returns assms)
    fix x assume x: "tls_upgrade ctx d = Some x"
    have "bounded (snd x)" using tls_upgrade_step [of ctx d "fst x" "snd x"] x assms by simp
    then have "bounded ((snd x)\<lparr>cl_tls := True\<rparr>)" by (simp add: bounded_def)
    from c [OF this] show "returns (case x of (err, c1) \<Rightarrow> (case err of
      Some e \<Rightarrow> Some (Some (NetFailure e), cl_Close c1)
    | None \<Rightarrow> guard ctx (connect upr ctx opt) (c1\<lparr>cl_tls := True\<rparr>)))"
      by (auto split: prod.splits option.splits)
  qed
  with c client_of_fields(1) [of opt raw] show ?thesis by (simp add: NewClient_def Let_def)
qed

text \<open>C10. Connecting ends: under a context with a deadline \<open>NewClient\<close> returns whatever the server does -
  silence, endless capability lines, lines without an end, a handshake that never comes - with or
  without TLS, and so does every later command, however often contexts are cancelled in between.\<close>

theorem client_returns:
  assumes "ctx_Deadline ctx \<noteq> None"
  shows "returns (NewClient upr ctx raw opt)
    \<and> (bounded c \<longrightarrow> returns (Cmd ctx line c) \<and> returns (cl_Capability upr ctx c)
        \<and> returns (cl_AuthenticatePlain ctx z u p c) \<and> returns (Logout ctx c))
    \<and> (\<forall>r c'. bounded c \<and> Cmd ctx' line c = Some (r, c') \<longrightarrow> bounded c')"
  using assms NewClient_returns Cmd_returns Capability_returns AuthenticatePlain_returns Cmd_bounded
  by (auto simp: Logout_def intro!: returns_bind)

theorem client_returns_witness:
  "returns (NewClient id (until 5) (sample_raw [Data ''no line'', Stall]) plain_options)
    \<and> returns (Cmd (until 5) ''NOOP'' (sample_client [Stall]))"
  using client_returns [of "until 5" id "sample_raw [Data ''no line'', Stall]" plain_options "sample_client [Stall]"]
  by (simp add: until_def sample_client_fields)

text \<open>A dead client: no operation sends anything or succeeds.\<close>

lemma dead_guard_start: "dead c \<Longrightarrow> dead (guard_start ctx c)"
  by (auto simp: guard_start_def dead_def expired_def poison_def split: option.splits)

lemma dead_guard_stop: "dead c \<Longrightarrow> dead (guard_stop ctx c)"
  by (simp add: guard_stop_def dead_def expired_def poison_def)

lemma dead_write:
  assumes "dead c"
  obtains e c1 where "writeCmd ctx line (guard_start ctx c) = Some (Some e, c1)" "dead c1" "sent c1 = sent c"
proof -
  let ?g = "guard_start ctx c"
  have d: "dead ?g" by (rule dead_guard_start [OF assms])
  have s: "sent ?g = sent c" by (simp add: guard_start_def poison_def)
  have "wdl (armWriteDeadline ctx ?g) \<noteq> None"
    using d by (auto simp: dead_def expired_def armWriteDeadline_def split: option.splits)
  then have "returns (writeCmd ctx line ?g)"
    using Flush_deadline [of "WriteString (line @ CRLF) (armWriteDeadline ctx ?g)"]
    by (cases "werr (armWriteDeadline ctx ?g)") (auto simp: writeCmd_def returns_def Let_def)
  then obtain e c1 where w: "writeCmd ctx line ?g = Some (e, c1)" by (auto simp: returns_def)
  with writeCmd_step [OF w] d s that show thesis by (cases e) auto
qed

lemma dead_fails:
  assumes "dead c"
  shows "\<exists>e c'. Cmd ctx line c = Some (Inl e, c') \<and> sent c' = sent c \<and> dead c'"
    and "\<exists>e c'. cl_Capability upr ctx c = Some (Inl e, c') \<and> sent c' = sent c \<and> dead c'"
    and "\<exists>e c'. cl_AuthenticatePlain ctx z u p c = Some (Some e, c') \<and> sent c' = sent c \<and> dead c'"
proof -
  have stop: "sent (guard_stop ctx d) = sent d" for d by (simp add: guard_stop_def poison_def)
  have w: "\<exists>e c1. writeCmd ctx l (guard_start ctx c) = Some (Some e, c1) \<and> dead c1 \<and> sent c1 = sent c" for l
    using dead_write [OF assms, of ctx l] by metis
  show "\<exists>e c'. Cmd ctx line c = Some (Inl e, c') \<and> sent c' = sent c \<and> dead c'"
    using w [of line] stop dead_guard_stop by (auto simp: Cmd_def guard_def)
  show "\<exists>e c'. cl_Capability upr ctx c = Some (Inl e, c') \<and> sent c' = sent c \<and> dead c'"
    using w [of "''CAPABILITY''"] stop dead_guard_stop by (auto simp: cl_Capability_def guard_def)
  show "\<exists>e c'. cl_AuthenticatePlain ctx z u p c = Some (Some e, c') \<and> sent c' = sent c \<and> dead c'"
    using w [of "auth_line z u p"] stop dead_guard_stop by (auto simp: cl_AuthenticatePlain_def guard_def)
qed

lemma Cmd_cancelled_dead:
  assumes "Cmd ctx line c = Some (r, c')" "wtimeout c \<le> 0" "cancelled c'"
  shows "dead c'"
proof -
  let ?g = "guard_start ctx c"
  obtain e c1 where 1: "writeCmd ctx line ?g = Some (e, c1)"
    using assms(1) by (auto simp: Cmd_def guard_def bind_eq_Some_conv)
  have t: "wtimeout ?g \<le> 0" using assms(2) by (simp add: guard_start_def)
  have g: "cancelled ?g \<longrightarrow> dead ?g" using t by (auto simp: guard_start_def intro: dead_poison)
  have w: "wtimeout c1 \<le> 0" "cancelled c1 \<longrightarrow> dead c1" using writeCmd_step [OF 1] t g by auto
  obtain d where d: "c' = guard_stop ctx d" "d = c1 \<or> (\<exists>q. cl_readLine ctx c1 = Some (q, d))"
    using assms(1) 1 by (auto simp: Cmd_def guard_def bind_eq_Some_conv split: option.splits)
  have td: "wtimeout d \<le> 0" using d(2) w(1) readLine_limits [of ctx c1 _ d] by (auto simp: same_limits_def)
  show ?thesis
  proof (cases "cancelled d")
    case True
    then have "dead d" using d(2) w cl_readLine_step [of ctx c1 _ d] by auto
    then show ?thesis by (simp add: d(1) dead_guard_stop)
  next
    case False
    with assms(3) have "c' = poison (d\<lparr>cancelled := True\<rparr>)" unfolding d(1) guard_stop_def by presburger
    with td show ?thesis by (simp add: dead_poison)
  qed
qed

text \<open>C20. After a cancellation the client is no longer usable: when the context's cancellation, or the
  passing of its deadline, has poked the connection during a command, every later operation, under any context, returns an error, sends not a byte and leaves the
  client in the same state; no deadline of a later context brings it back.\<close>

theorem cancelled_client_unusable:
  assumes "Cmd ctx line c = Some (r, c1)" and "wtimeout c \<le> 0" and "cancelled c1"
  shows "dead c1
    \<and> (\<forall>d. dead d \<longrightarrow>
        (\<exists>e c'. Cmd ctx' line' d = Some (Inl e, c') \<and> sent c' = sent d \<and> dead c')
      \<and> (\<exists>e c'. cl_Capability upr ctx' d = Some (Inl e, c') \<and> sent c' = sent d \<and> dead c')
      \<and> (\<exists>e c'. cl_AuthenticatePlain ctx' z u p d = Some (Some e, c') \<and> sent c' = sent d \<and> dead c'))"
  using Cmd_cancelled_dead [OF assms] dead_fails by blast

theorem cancelled_client_unusable_witness:
  "\<exists>r c1 e c2. Cmd (until 100) ''NOOP'' (sample_client [Wait 2, Cancel, Data (''OK'' @ CRLF)]) = Some (r, c1)
     \<and> Cmd background ''NOOP'' c1 = Some (Inl e, c2) \<and> sent c2 = sent c1"
proof -
  let ?c = "sample_client [Wait 2, Cancel, Data (''OK'' @ CRLF)]"
  have "map_option (cancelled \<circ> snd) (Cmd (until 100) ''NOOP'' ?c) = Some True" by code_simp
  then obtain r c1 where r: "Cmd (until 100) ''NOOP'' ?c = Some (r, c1)" "cancelled c1" by auto
  have "wtimeout ?c \<le> 0" by (simp add: sample_client_fields)
  from cancelled_client_unusable [OF r(1) this r(2), of background "''NOOP''"] r(1) show ?thesis by blast
qed

text \<open>A line whose rest never comes: \<open>ReadSlice\<close> gives what is there together with the error.\<close>

lemma ReadSlice_cut:
  assumes "rbuf c = []" "inp c = Data t # tail" "t \<noteq> []" "LF \<notin> set t" "length t < bufio_size" "stream tail = []"
    and "rdl c = Some d" "now c < d"
  shows "\<exists>e c'. ReadSlice c = Some ((t, Some e), c') \<and> e \<noteq> ErrBufferFull"
proof -
  let ?c1 = "c\<lparr>inp := Data [] # tail, rbuf := t\<rparr>"
  have n: "index_byte LF t = None" using assms(4) by (simp add: index_byte_None)
  have "net_read bufio_size c = Some (Inr t, c\<lparr>inp := Data [] # tail\<rparr>)"
    using assms by (simp add: net_read_def expired_def)
  then have s: "ReadSlice c = ReadSlice ?c1"
    using assms(1) by (simp add: ReadSlice.simps [of c] index_byte_None bufio_size_def)
  have "net_read (bufio_size - length t) ?c1 \<noteq> None" by (rule net_read_deadline) (simp add: assms(7))
  then obtain r c2 where r: "net_read (bufio_size - length t) ?c1 = Some (r, c2)" by fastforce
  have k: "0 < bufio_size - length t" using assms(5) by simp
  show ?thesis
  proof (cases r)
    case (Inl e)
    from net_read_errors [OF r [unfolded Inl]] net_read_fail(3) [OF r [unfolded Inl] k] n r Inl assms(5)
    show ?thesis unfolding s by (auto simp: ReadSlice.simps [of ?c1])
  next
    case (Inr x)
    from net_read_data(1,3) [OF r [unfolded Inr] k] assms(6) show ?thesis by simp
  qed
qed

lemma cl_readLine_cut:
  assumes "rbuf c = []" "inp c = Data t # tail" "t \<noteq> []" "LF \<notin> set t" "length t < bufio_size" "stream tail = []"
    and "ctx_Deadline ctx = Some d" "now c < d" "\<not> poisoned c" "int (length t) \<le> maxLine c"
  shows "\<exists>c'. cl_readLine ctx c = Some (Inr t, c')"
proof -
  have a: "armReadDeadline ctx c = c\<lparr>rdl := Some d\<rparr>" using assms(7,9) by (simp add: armReadDeadline_def)
  from assms ReadSlice_cut [of "c\<lparr>rdl := Some d\<rparr>" t tail d] obtain e c1 where
    s: "ReadSlice (c\<lparr>rdl := Some d\<rparr>) = Some ((t, Some e), c1)" "e \<noteq> ErrBufferFull" by auto
  have "ReadLine (c\<lparr>rdl := Some d\<rparr>) = Some (Inr (t, False), c1)"
    using s assms(3) drop_line_end_simps(2) [OF assms(4)] by (cases t) (simp_all add: ReadLine_def)
  with assms(10) show ?thesis by (simp add: cl_readLine_def a line_loop.simps)
qed

text \<open>C38. A status line that was cut off counts as whole: \<open>bufio\<close>'s \<open>ReadLine\<close> returns the bytes before an
  error as a line. Whatever begins like an OK and then ends without its CRLF - at the end of the data, at
  a reset, at the deadline, at a cancellation - makes a login succeed; any other front of a line is
  reported as the server's response.\<close>

theorem truncated_status_accepted:
  assumes "inp c = Data t # tail" and "rbuf c = []" and "t \<noteq> []" and "LF \<notin> set t" and "stream tail = []"
    and "length t < bufio_size" and "int (length t) \<le> maxLine c"
    and "werr c = None" and "wplan c = Accepts" and "\<not> poisoned c"
    and "ctx_Deadline ctx = Some d" and "now c < d" and "\<not> ctx_done ctx"
  shows "\<exists>c'. cl_AuthenticatePlain ctx z u p c = Some (if isOK t then None else Some (ProtocolError t), c')"
proof -
  let ?g = "c\<lparr>cancelled := False, wdl := Some d\<rparr>" and ?l = "auth_line z u p @ CRLF"
  have "\<exists>c1. Flush (WriteString ?l ?g) = Some (None, c1) \<and> now c1 = now c \<and> write_frame (WriteString ?l ?g) c1"
    using Flush_Accepts [of "WriteString ?l ?g"] assms(8,9,12) by (auto simp: expired_def)
  then obtain c1 where 1: "Flush (WriteString ?l ?g) = Some (None, c1)" "now c1 = now c"
    "write_frame (WriteString ?l ?g) c1" by blast
  have "netio.more c1 = netio.more c" using 1(3) by (simp add: write_frame_def)
  then have m: "maxLine c1 = maxLine c" by (cases c; cases c1; simp)
  from cl_readLine_cut [of c1 t tail ctx d] assms 1 m obtain c2 where
    "cl_readLine ctx c1 = Some (Inr t, c2)" by (auto simp: write_frame_def)
  moreover have "writeCmd ctx (auth_line z u p) (guard_start ctx c) = Some (None, c1)"
    using assms(8,10,11,13) 1(1) by (simp add: writeCmd_def guard_start_def armWriteDeadline_def Let_def)
  ultimately show ?thesis
    by (simp add: cl_AuthenticatePlain_def guard_def expect_OK_def)
qed

theorem truncated_status_accepted_witness:
  "\<exists>c'. cl_AuthenticatePlain (until 100) [] ''u'' ''pw'' (sample_client [Data ''OK'', Wait 5, Stall]) = Some (None, c')"
proof -
  let ?c = "sample_client [Data ''OK'', Wait 5, Stall]"
  have f: "inp ?c = Data ''OK'' # [Wait 5, Stall]" "rbuf ?c = []" "werr ?c = None" "\<not> poisoned ?c"
    "wplan ?c = Accepts" "maxLine ?c = 8192" "now ?c = 0"
    by (simp_all add: sample_client_def client_of_def sample_raw_def plain_options_def netio.defs)
  have u: "ctx_Deadline (until 100) = Some 100" "\<not> ctx_done (until 100)" by (simp_all add: until_def)
  have o: "isOK ''OK''" by (simp add: isOK_def isStatus_def)
  from truncated_status_accepted [OF f(1,2) _ _ _ _ _ f(3,5,4) u(1) _ u(2), of "[]" "''u''" "''pw''"] f(6,7) o
  show ?thesis by (simp add: bufio_size_def)
qed

section \<open>Bounds and STARTTLS\<close>

lemma read_caps_keeps:
  "read_caps upr ctx k m c = Some (Some e, c') \<Longrightarrow> caps c' = caps c \<and> greeting c' = greeting c"
proof (induction upr ctx k m c rule: read_caps.induct)
  case (2 upr ctx k m c)
  obtain r c1 where r: "cl_readLine ctx c = Some (r, c1)"
    using 2(2) by (auto split: option.splits)
  have "netio.more c1 = netio.more c" using cl_readLine_step [OF r] by simp
  then have f: "caps c1 = caps c" "greeting c1 = greeting c" by (cases c; cases c1; simp)+
  show ?case
  proof (cases r)
    case (Inr line)
    with 2(2) r f 2(1) [OF r refl Inr _ _ refl] show ?thesis
      by (auto split: if_splits prod.splits)
  qed (use 2(2) r f in auto)
qed auto

text \<open>C32. What a server can make the client store is bounded: a capability block that is accepted has
  fewer entries than \<open>MaxCapabilityLines\<close>, ends with an OK line, and no line read is longer than
  \<open>MaxLineLength\<close>; a refused block leaves the stored map as it was.\<close>

theorem capability_block_bounded:
  assumes "readCapabilityBlock upr ctx c = Some (e, c')"
  shows "(case e of
      None \<Rightarrow> finite (dom (Capabilities c')) \<and> card (dom (Capabilities c')) < nat (maxCaps c)
        \<and> isOK (greeting c') \<and> int (length (greeting c')) \<le> maxLine c
    | Some x \<Rightarrow> Capabilities c' = Capabilities c \<and> greeting c' = greeting c)
    \<and> maxLine c' = maxLine c \<and> maxCaps c' = maxCaps c \<and> sent c' = sent c"
  using readCapabilityBlock_step [OF assms] read_caps_keeps [of upr ctx "nat (maxCaps c)" Map.empty c _ c'] assms
  by (cases e) (auto simp: Capabilities_def same_limits_def readCapabilityBlock_def)

theorem capability_block_bounded_witness:
  "\<exists>e c'. readCapabilityBlock id background
      (sample_client [Data (dq ''SASL'' @ CRLF @ ''NO'' @ CRLF)]) = Some (Some e, c') \<and> Capabilities c' = Map.empty"
proof -
  let ?c = "sample_client [Data (dq ''SASL'' @ CRLF @ ''NO'' @ CRLF)]"
  have "map_option fst (readCapabilityBlock id background ?c) = Some (Some (ProtocolError ''NO''))"
    by code_simp
  then obtain c' where r: "readCapabilityBlock id background ?c = Some (Some (ProtocolError ''NO''), c')" by auto
  have "Capabilities ?c = Map.empty"
    by (simp add: Capabilities_def sample_client_def client_of_def netio.defs)
  with capability_block_bounded [OF r] r show ?thesis by auto
qed

text \<open>C19. No response injection around STARTTLS: when the upgrade succeeds, everything the client then
  believes of the server - capabilities and greeting - was read by a fresh reader inside the encrypted
  stream of a handshake the server really completed; plaintext that came with or behind the OK is gone.\<close>

theorem starttls_no_injection:
  assumes "startTLS upr ctx c = Some (None, c')"
  shows "\<exists>d. rbuf d = [] \<and> (\<exists>h. TlsHello h (inp d) \<in> set (inp c)) \<and> cl_tls d
    \<and> readCapabilityBlock upr ctx d = Some (None, c') \<and> cl_tls c'"
  using assms
proof (cases rule: startTLS_cases)
  case (1 d)
  then have "cl_tls c'" using readCapabilityBlock_step [OF 1(7)] by (simp add: same_limits_def)
  with 1 show ?thesis by (auto simp: hellos_def)
qed

theorem starttls_no_injection_witness:
  "\<exists>c'. startTLS id (until 9) (sample_client [Data (''OK'' @ CRLF @ dq ''EVIL'' @ CRLF),
       TlsHello [] [Data (dq ''SASL'' @ CRLF @ ''OK'' @ CRLF)]]) = Some (None, c')
     \<and> cl_tls c' \<and> Capabilities c' ''EVIL'' = None \<and> Capabilities c' ''SASL'' = Some []"
proof -
  let ?c = "sample_client [Data (''OK'' @ CRLF @ dq ''EVIL'' @ CRLF),
       TlsHello [] [Data (dq ''SASL'' @ CRLF @ ''OK'' @ CRLF)]]"
  have "map_option (\<lambda>(e, c). (e, caps c ''EVIL'', caps c ''SASL'')) (startTLS id (until 9) ?c)
      = Some (None, None, Some [])"
    by code_simp
  then obtain c' where r: "startTLS id (until 9) ?c = Some (None, c')"
    and k: "caps c' ''EVIL'' = None" "caps c' ''SASL'' = Some []" by auto
  from starttls_no_injection [OF r] r k show ?thesis by (auto simp: Capabilities_def)
qed

end
