(* ===== verification/Sessions.thy ===== *)
theory Sessions
  imports Responses
begin

text \<open>
  The contract between the server's script handlers and the application's session: a session that keeps
  an account, seen as a map of contents and the name of the active script, and the laws of its methods.
  What a client observes through the handlers follows from the laws alone; the in-memory store is one
  session that keeps them.
\<close>

section \<open>The contract\<close>

text \<open>The PUTSCRIPT method the handler uses: the one with warnings where the session has it.\<close>

definition put_of :: "'s Session \<Rightarrow> string \<Rightarrow> string \<Rightarrow> 's \<Rightarrow> (goerr + bool \<times> string) \<times> 's" where
  "put_of sops n b s =
     (case s_PutScriptWarnings sops of
        Some put \<Rightarrow> put n b s
      | None \<Rightarrow> (case s_PutScript sops n b s of
            (Inl e, s') \<Rightarrow> (Inl e, s')
          | (Inr updated, s') \<Rightarrow> (Inr (updated, []), s')))"

lemma call_PutScript_put:
  "fst (call_PutScript env n b c) = fst (put_of (ops env) n b (session c))"
  "session (snd (call_PutScript env n b c)) = snd (put_of (ops env) n b (session c))"
  "werr (snd (call_PutScript env n b c)) = werr c"
  by (auto simp: call_PutScript_def put_of_def session_call_def log_obs_def
      split: option.splits prod.splits sum.splits)

text \<open>A session whose scripts can be read: \<open>view\<close> is the account of the user who is logged in, \<open>inv\<close> what
  the session keeps of its own state.\<close>

locale script_reader =
  fixes sops :: "'s Session"
    and view :: "'s \<Rightarrow> ((string \<rightharpoonup> string) \<times> string option) option"
    and inv :: "'s \<Rightarrow> bool"
  assumes get_law: "inv s \<Longrightarrow> view s = Some (m, act) \<Longrightarrow> s_GetScript sops n s = (r, s') \<Longrightarrow>
      s' = s \<and> (case r of Inr b \<Rightarrow> m n = Some b | Inl e \<Rightarrow> m n = None)"
    and list_law: "inv s \<Longrightarrow> view s = Some (m, act) \<Longrightarrow> s_ListScripts sops s = (l, s') \<Longrightarrow>
      s' = s \<and> (\<exists>xs. l = Inr xs \<and> distinct (map si_Name xs) \<and> set (map si_Name xs) = dom m
        \<and> (\<forall>x\<in>set xs. si_Active x \<longleftrightarrow> act = Some (si_Name x)))"
begin

text \<open>GETSCRIPT shows the account: a script that is there comes as a literal, another as an error.\<close>

lemma get_response:
  assumes "ops env = sops" "inv (session c)" "view (session c) = Some (m, act)" "werr c = None"
    and "m (arg_name a) = Some b"
  shows "wbuf (handleGetScript env (a # as) c)
      = wbuf c @ ''{'' @ dec_nat (length b) @ ''}'' @ CRLF @ b @ CRLF @ ''OK'' @ CRLF
    \<and> session (handleGetScript env (a # as) c) = session c"
proof -
  obtain r s' where r: "s_GetScript sops (arg_name a) (session c) = (r, s')" by fastforce
  with get_law [OF assms(2,3) r] assms(5) have "r = Inr b" "s' = session c" by (auto split: sum.splits)
  with r assms(1,4) show ?thesis by (simp add: handleGetScript_def session_call_def Let_def)
qed

lemma list_response:
  assumes "ops env = sops" "inv (session c)" "view (session c) = Some (m, act)" "werr c = None"
  shows "\<exists>xs. wbuf (handleListScripts env c)
      = wbuf c @ concat (map (\<lambda>x. list_line x @ CRLF) xs) @ ''OK'' @ CRLF
    \<and> distinct (map si_Name xs) \<and> set (map si_Name xs) = dom m
    \<and> (\<forall>x\<in>set xs. si_Active x \<longleftrightarrow> act = Some (si_Name x)) \<and> session (handleListScripts env c) = session c"
proof -
  obtain r s' where r: "s_ListScripts sops (session c) = (r, s')" by fastforce
  from list_law [OF assms(2,3) r] obtain xs where xs: "r = Inr xs" "s' = session c"
    "distinct (map si_Name xs)" "set (map si_Name xs) = dom m"
    "\<forall>x\<in>set xs. si_Active x \<longleftrightarrow> act = Some (si_Name x)" by blast
  with r assms(1,4) show ?thesis
    by (intro exI [of _ xs]) (simp add: handleListScripts_def session_call_def comp_def)
qed

end

locale script_store = script_reader +
  assumes put_law: "inv s \<Longrightarrow> view s = Some (m, act) \<Longrightarrow> put_of sops n b s = (p, s') \<Longrightarrow>
      inv s' \<and> view s' = Some (case p of Inr x \<Rightarrow> (m(n \<mapsto> b), act) | Inl e \<Rightarrow> (m, act))"
    and delete_law: "inv s \<Longrightarrow> view s = Some (m, act) \<Longrightarrow> s_DeleteScript sops n s = (r, s') \<Longrightarrow>
      inv s' \<and> view s' = Some (if r = None then (m(n := None), act) else (m, act))
      \<and> (r = None \<longrightarrow> act \<noteq> Some n)"
    and rename_law: "inv s \<Longrightarrow> view s = Some (m, act) \<Longrightarrow> s_RenameScript sops n k s = (r, s') \<Longrightarrow>
      inv s' \<and> view s' = Some (if r = None
        then (m(n := None, k := m n), if act = Some n then Some k else act) else (m, act))
      \<and> (r = None \<longrightarrow> m n \<noteq> None \<and> m k = None)"
    and activate_law: "inv s \<Longrightarrow> view s = Some (m, act) \<Longrightarrow> s_SetActive sops n s = (r, s') \<Longrightarrow>
      inv s' \<and> view s' = Some (if r = None then (m, if n = [] then None else Some n) else (m, act))
      \<and> (r = None \<and> n \<noteq> [] \<longrightarrow> m n \<noteq> None)"
begin

text \<open>A PUTSCRIPT with a quoted body that the session accepts: what it stored.\<close>

lemma put_session:
  assumes "ops env = sops" "inv (session c)" "view (session c) = Some (m, act)"
    and "ValidateScriptName (TrimSpace n) = None" "\<not> tooBig env (int (length b))"
    and "call_PutScript env (TrimSpace n) b c = (Inr x, c2)"
  shows "\<exists>c1. handlePutScript env [Quote n, Quote b] c = Some c1 \<and> inv (session c1)
    \<and> view (session c1) = Some (m(TrimSpace n \<mapsto> b), act) \<and> werr c1 = werr c"
proof -
  obtain r s' where p: "put_of sops (TrimSpace n) b (session c) = (r, s')" by fastforce
  have "r = Inr x" "session c2 = s'" "werr c2 = werr c"
    using call_PutScript_put [of env "TrimSpace n" b c] assms(1,6) p by simp_all
  with put_law [OF assms(2,3) p] have v: "inv (session c2)"
    "view (session c2) = Some (m(TrimSpace n \<mapsto> b), act)" by simp_all
  have a: "arg_name (Quote n) = TrimSpace n" by (simp add: arg_name_def srv.unq_Quote)
  obtain updated w where x: "x = (updated, w)" by fastforce
  have r: "readScriptArgument env (Quote b) c = Some (Some b, c)"
    by (simp add: readScriptArgument_def literalLength_Quote srv.unq_Quote)
  show ?thesis
    using assms(4-6) v \<open>werr c2 = werr c\<close>
    by (auto simp: handlePutScript_def r a x)
qed

text \<open>Whatever was stored is read back, byte for byte, and nothing else changed.\<close>

lemma put_then_get:
  assumes "ops env = sops" "inv (session c)" "view (session c) = Some (m, act)" "werr c = None"
    and "ValidateScriptName (TrimSpace n) = None" "\<not> tooBig env (int (length b))"
    and "call_PutScript env (TrimSpace n) b c = (Inr x, c2)"
  shows "\<exists>c1. handlePutScript env [Quote n, Quote b] c = Some c1
    \<and> wbuf (handleGetScript env [Quote n] c1)
        = wbuf c1 @ ''{'' @ dec_nat (length b) @ ''}'' @ CRLF @ b @ CRLF @ ''OK'' @ CRLF
    \<and> (\<forall>k d. TrimSpace k \<noteq> TrimSpace n \<and> m (TrimSpace k) = Some d \<longrightarrow>
        wbuf (handleGetScript env [Quote k] c1)
          = wbuf c1 @ ''{'' @ dec_nat (length d) @ ''}'' @ CRLF @ d @ CRLF @ ''OK'' @ CRLF)"
proof -
  from put_session [OF assms(1-3,5-7)] obtain c1 where 1: "handlePutScript env [Quote n, Quote b] c = Some c1"
    "inv (session c1)" "view (session c1) = Some (m(TrimSpace n \<mapsto> b), act)" "werr c1 = None"
    using assms(4) by auto
  have a: "arg_name (Quote k) = TrimSpace k" for k by (simp add: arg_name_def srv.unq_Quote)
  have "wbuf (handleGetScript env [Quote k] c1)
      = wbuf c1 @ ''{'' @ dec_nat (length d) @ ''}'' @ CRLF @ d @ CRLF @ ''OK'' @ CRLF"
    if "(m(TrimSpace n \<mapsto> b)) (TrimSpace k) = Some d" for k d
    using get_response [OF assms(1) 1(2-4), of "Quote k" d "[]"] that by (simp add: a)
  with 1(1) show ?thesis by (intro exI [of _ c1]) simp
qed

text \<open>The active script is not lost: a DELETESCRIPT of it is answered by the error path, and it stays.\<close>

lemma active_stays:
  assumes "ops env = sops" "inv (session c)" "view (session c) = Some (m, Some (arg_name a))"
  shows "view (session (handleDeleteScript env (a # as) c)) = Some (m, Some (arg_name a))
    \<and> inv (session (handleDeleteScript env (a # as) c))"
proof -
  obtain r s' where r: "s_DeleteScript sops (arg_name a) (session c) = (r, s')" by fastforce
  from delete_law [OF assms(2,3) r] have "r \<noteq> None" "inv s'" "view s' = Some (m, Some (arg_name a))"
    by (auto split: if_splits)
  with r assms(1) show ?thesis
    by (auto simp: handleDeleteScript_def session_call_def finish_def)
qed

end

end
