(* ===== verification/StoreSession.thy ===== *)
theory StoreSession
  imports Sessions
begin

text \<open>
  The in-memory store keeps the contract of \<open>Sessions\<close>: the laws are discharged for the session of
  \<open>managesievemem\<close>, and what a client of the server observes over it follows.
\<close>

section \<open>The laws\<close>

lemma abs_session_authed:
  assumes "abs_session sess = Some (m, act)"
  obtains a where "accounts (store sess) (username sess) = Some a" "authed sess = Inr a"
    "m = contents (acc_scripts a)" "act = active_name (acc_scripts a)"
  using assms by (auto simp: abs_session_def abs_scripts_def authed_Inr)

lemma refines_unit:
  assumes "refines (unit_spec spec) (unit_result (r, s')) sess"
  shows "case spec of
      Inl cd \<Rightarrow> r \<noteq> None \<and> s' = sess
    | Inr v \<Rightarrow> r = None \<and> abs_session s' = Some v \<and> wf_session s'"
  using assms by (auto simp: refines_def unit_spec_def unit_result_def split: sum.splits option.splits)

lemma mem_get:
  assumes "abs_session sess = Some (m, act)" "GetScript n sess = (r, s')"
  shows "s' = sess \<and> (case r of Inr b \<Rightarrow> m n = Some b | Inl e \<Rightarrow> m n = None)"
  using assms(2) by (cases rule: abs_session_authed [OF assms(1)])
    (auto simp: GetScript_def contents_def split: option.splits)

lemma find_script_member: "sc \<in> set scs \<Longrightarrow> distinct (names scs) \<Longrightarrow> find_script (sc_name sc) scs = Some sc"
  by (induction scs) (auto simp: names_def)

lemma mem_list:
  assumes "wf_session sess" "abs_session sess = Some (m, act)" "ListScripts sess = (r, s')"
  shows "s' = sess \<and> (\<exists>xs. r = Inr xs \<and> distinct (map si_Name xs) \<and> set (map si_Name xs) = dom m
    \<and> (\<forall>x\<in>set xs. si_Active x \<longleftrightarrow> act = Some (si_Name x)))"
proof (cases rule: abs_session_authed [OF assms(2)])
  case (1 a)
  let ?xs = "map (\<lambda>sc. \<lparr>si_Name = sc_name sc, si_Active = sc_active sc\<rparr>) (acc_scripts a)"
  have w: "wf_scripts (acc_scripts a)" by (rule wf_sessionD(1) [OF assms(1) 1(1)])
  then have d: "distinct (names (acc_scripts a))" by (simp add: wf_scripts_def)
  have n: "map si_Name ?xs = names (acc_scripts a)" by (simp add: names_def)
  have "dom m = set (names (acc_scripts a))"
    by (rule set_eqI) (metis 1(3) contents_None domIff)
  moreover have "sc_active sc \<longleftrightarrow> act = Some (sc_name sc)" if "sc \<in> set (acc_scripts a)" for sc
    using active_script [OF w find_script_member [OF that d]] 1(4) by simp
  ultimately show ?thesis using assms(3) 1(2) d
    by (intro conjI exI [of _ ?xs]) (auto simp: ListScripts_def names_def comp_def)
qed

lemma mem_put:
  assumes "wf_session sess" "abs_session sess = Some (m, act)" "PutScriptWarnings upper n b sess = (r, s')"
  shows "wf_session s' \<and> abs_session s' = Some (case r of Inr x \<Rightarrow> (m(n \<mapsto> b), act) | Inl e \<Rightarrow> (m, act))"
proof (cases rule: abs_session_authed [OF assms(2)])
  case (1 a)
  show ?thesis
  proof (cases "run_validate upper b (store sess)")
    case (Inl e)
    with assms show ?thesis by (auto simp: PutScriptWarnings_def)
  next
    case (Inr w)
    from put_refines [OF assms(1) 1(1) Inr, of n] assms show ?thesis
      by (auto simp: refines_def split: sum.splits if_splits)
  qed
qed

lemma mem_delete:
  assumes "wf_session sess" "abs_session sess = Some (m, act)" "DeleteScript n sess = (r, s')"
  shows "wf_session s' \<and> abs_session s' = Some (if r = None then (m(n := None), act) else (m, act))
    \<and> (r = None \<longrightarrow> act \<noteq> Some n)"
proof (cases rule: abs_session_authed [OF assms(2)])
  case (1 a)
  from refines_unit [OF delete_refines [OF assms(1) 1(1), of n, unfolded assms(3)]] assms(1,2)
  show ?thesis by (auto split: if_splits)
qed

lemma mem_rename:
  assumes "wf_session sess" "abs_session sess = Some (m, act)" "RenameScript n k sess = (r, s')"
  shows "wf_session s' \<and> abs_session s' = Some (if r = None
      then (m(n := None, k := m n), if act = Some n then Some k else act) else (m, act))
    \<and> (r = None \<longrightarrow> m n \<noteq> None \<and> m k = None)"
proof (cases rule: abs_session_authed [OF assms(2)])
  case (1 a)
  from refines_unit [OF rename_refines [OF assms(1) 1(1), of n k, unfolded assms(3)]] assms(1,2)
  show ?thesis by (auto split: if_splits)
qed

lemma mem_activate:
  assumes "wf_session sess" "abs_session sess = Some (m, act)" "SetActive upper n sess = (r, s')"
  shows "wf_session s' \<and> abs_session s' = Some (if r = None then (m, if n = [] then None else Some n) else (m, act))
    \<and> (r = None \<and> n \<noteq> [] \<longrightarrow> m n \<noteq> None)"
proof (cases rule: abs_session_authed [OF assms(2)])
  case (1 a)
  show ?thesis
  proof (cases "\<exists>c e. m n = Some c \<and> n \<noteq> [] \<and> run_validate upper c (store sess) = Inl e")
    case True
    with assms 1 show ?thesis
      by (auto simp: SetActive_def SetActive_snapshot_def contents_def)
  next
    case False
    then have v: "\<exists>w. run_validate upper c (store sess) = Inr w"
      if "n \<noteq> []" "contents (acc_scripts a) n = Some c" for c
      using that 1(3) by (cases "run_validate upper c (store sess)") auto
    have "refines (unit_spec (spec_activate n (the (abs_session sess)))) (unit_result (SetActive upper n sess)) sess"
      by (rule activate_refines [OF assms(1) 1(1) v])
    then have "refines (unit_spec (spec_activate n (m, act))) (unit_result (r, s')) sess"
      by (simp only: assms(2,3) option.sel)
    from refines_unit [OF this] assms(1,2) show ?thesis by (auto split: if_splits)
  qed
qed

section \<open>The in-memory store as the session\<close>

lemma put_of_mem: "put_of (mem_ops sha256 upper) n b s = PutScriptWarnings upper n b s"
  by (simp add: put_of_def mem_ops_def)

interpretation mem: script_store "mem_ops sha256 upper" abs_session wf_session for sha256 upper
proof (unfold_locales, goal_cases)
  case (1 s m act n r s')
  have "GetScript n s = (r, s')" using 1(3) by (simp add: mem_ops_def)
  then show ?case by (rule mem_get [OF 1(2)])
next
  case (2 s m act l s')
  have "ListScripts s = (l, s')" using 2(3) by (simp add: mem_ops_def)
  then show ?case by (rule mem_list [OF 2(1,2)])
next
  case (3 s m act n b p s')
  then show ?case unfolding put_of_mem by (rule mem_put)
next
  case (4 s m act n r s')
  have "DeleteScript n s = (r, s')" using 4(3) by (simp add: mem_ops_def)
  then show ?case by (rule mem_delete [OF 4(1,2)])
next
  case (5 s m act n k r s')
  have "RenameScript n k s = (r, s')" using 5(3) by (simp add: mem_ops_def)
  then show ?case by (rule mem_rename [OF 5(1,2)])
next
  case (6 s m act n r s')
  have "SetActive upper n s = (r, s')" using 6(3) by (simp add: mem_ops_def)
  then show ?case by (rule mem_activate [OF 6(1,2)])
qed

section \<open>What a client observes\<close>

text \<open>C7. Over the in-memory store, a PUTSCRIPT that the store accepts is read back by GETSCRIPT byte for
  byte - any name that passes validation, any content within the limit, whatever bytes it holds - and
  every other script of the account answers as before.\<close>

theorem stored_script_read_back:
  assumes "ops env = mem_ops sha256 upper" and "wf_session (session c)"
    and "abs_session (session c) = Some (m, act)" and "werr c = None"
    and "ValidateScriptName (TrimSpace n) = None" and "\<not> tooBig env (int (length b))"
    and "call_PutScript env (TrimSpace n) b c = (Inr x, c2)"
  shows "\<exists>c1. handlePutScript env [Quote n, Quote b] c = Some c1
    \<and> wbuf (handleGetScript env [Quote n] c1)
        = wbuf c1 @ ''{'' @ dec_nat (length b) @ ''}'' @ CRLF @ b @ CRLF @ ''OK'' @ CRLF
    \<and> (\<forall>k d. TrimSpace k \<noteq> TrimSpace n \<and> m (TrimSpace k) = Some d \<longrightarrow>
        wbuf (handleGetScript env [Quote k] c1)
          = wbuf c1 @ ''{'' @ dec_nat (length d) @ ''}'' @ CRLF @ d @ CRLF @ ''OK'' @ CRLF)"
  using assms by (rule mem.put_then_get)

theorem stored_script_read_back_witness:
  "\<exists>c1. handlePutScript sample_env [Quote ''a'', Quote (''x'' @ CRLF)]
        ((sample_conn [])\<lparr>session := sess_of sample_store ''u''\<rparr>) = Some c1
     \<and> wbuf (handleGetScript sample_env [Quote ''a''] c1)
        = wbuf c1 @ ''{'' @ dec_nat 3 @ ''}'' @ CRLF @ (''x'' @ CRLF) @ CRLF @ ''OK'' @ CRLF"
proof -
  let ?s = "sess_of sample_store ''u''" and ?b = "''x'' @ CRLF"
  let ?c = "(sample_conn [])\<lparr>session := ?s\<rparr>"
  have o: "ops sample_env = mem_ops id id" by (simp add: sample_env_def env_of_def)
  have w: "wf_session (session ?c)" by (simp add: wf_session_def sample_store_wf)
  have v: "abs_session (session ?c) = Some (contents (acc_scripts sample_account),
      active_name (acc_scripts sample_account))"
    by (simp add: abs_session_def abs_scripts_def sample_store_eq)
  have e: "werr ?c = None" using sample_fresh [of "[]"] by (simp add: fresh_def)
  have n: "ValidateScriptName (TrimSpace ''a'') = None" "\<not> tooBig sample_env (int (length ?b))"
    by code_simp+
  have "fst (call_PutScript sample_env (TrimSpace ''a'') ?b ?c) = Inr (True, [])" by code_simp
  then obtain c2 where "call_PutScript sample_env (TrimSpace ''a'') ?b ?c = (Inr (True, []), c2)"
    by (metis prod.collapse)
  from stored_script_read_back [OF o w v e n this] show ?thesis by (auto simp: numeral_3_eq_3)
qed

text \<open>C26. Over the in-memory store, LISTSCRIPTS names every script of the account exactly once and marks
  exactly the active one, and a DELETESCRIPT of the active script leaves the account as it is.\<close>

theorem listing_and_active_script:
  assumes "ops env = mem_ops sha256 upper" and "wf_session (session c)"
    and "abs_session (session c) = Some (m, act)" and "werr c = None"
  shows "(\<exists>xs. wbuf (handleListScripts env c)
        = wbuf c @ concat (map (\<lambda>x. list_line x @ CRLF) xs) @ ''OK'' @ CRLF
      \<and> distinct (map si_Name xs) \<and> set (map si_Name xs) = dom m
      \<and> (\<forall>x\<in>set xs. si_Active x \<longleftrightarrow> act = Some (si_Name x)))
    \<and> (act = Some (arg_name a) \<longrightarrow>
        abs_session (session (handleDeleteScript env (a # as) c)) = Some (m, act)
        \<and> wf_session (session (handleDeleteScript env (a # as) c)))"
  using mem.list_response [OF assms] mem.active_stays [OF assms(1,2), of m a as] assms(3) by blast

theorem listing_and_active_script_witness:
  "abs_session (session (handleDeleteScript sample_env [Quote ''b'']
      ((sample_conn [])\<lparr>session := sess_of sample_store ''u''\<rparr>)))
   = Some (contents (acc_scripts sample_account), Some ''b'')"
proof -
  let ?c = "(sample_conn [])\<lparr>session := sess_of sample_store ''u''\<rparr>"
  have o: "ops sample_env = mem_ops id id" by (simp add: sample_env_def env_of_def)
  have w: "wf_session (session ?c)" by (simp add: wf_session_def sample_store_wf)
  have "active_name (acc_scripts sample_account) = Some ''b''"
    by (simp add: active_name_def sample_account_def)
  then have v: "abs_session (session ?c) = Some (contents (acc_scripts sample_account), Some ''b'')"
    by (simp add: abs_session_def abs_scripts_def sample_store_eq)
  have e: "werr ?c = None" using sample_fresh [of "[]"] by (simp add: fresh_def)
  have "arg_name (Quote ''b'') = ''b''" by code_simp
  with listing_and_active_script [OF o w v e, of "Quote ''b''" "[]"] show ?thesis by simp
qed

end
