(* ===== verification/Cleartext.thy ===== *)
theory Cleartext
  imports Responses
begin

text \<open>
  Connections without TLS: without \<open>InsecureAuth\<close>, a peer that never completes a handshake gets to no
  authentication call and no script method, over whole runs of the server; and what the server's STARTTLS
  leaves of the plaintext.
\<close>

section \<open>Reading brings no handshake\<close>

definition keeps_hellos :: "'a netio_scheme \<Rightarrow> 'b netio_scheme \<Rightarrow> bool" where
  "keeps_hellos c c' \<longleftrightarrow> hellos (inp c') \<subseteq> hellos (inp c)"

lemma keeps_hellos_refl [simp]: "inp c' = inp c \<Longrightarrow> keeps_hellos c c'"
  by (simp add: keeps_hellos_def)

lemma keeps_hellos_trans: "keeps_hellos a b \<Longrightarrow> keeps_hellos b c \<Longrightarrow> keeps_hellos a c"
  by (auto simp: keeps_hellos_def)

lemma drain_hellos: "drain c = Some c' \<Longrightarrow> keeps_hellos c c'"
proof (induction c rule: drain.induct)
  case (1 c)
  obtain s err c1 where s: "ReadSlice c = Some ((s, err), c1)"
    using 1(2) by (subst (asm) drain.simps) (auto split: option.splits)
  have k: "keeps_hellos c c1" using ReadSlice_hellos [OF s] by (simp add: keeps_hellos_def)
  show ?case
  proof (cases "err = Some ErrBufferFull")
    case True
    with 1(2) s have "drain c1 = Some c'" by (subst (asm) drain.simps) simp
    from keeps_hellos_trans [OF k 1(1) [OF s refl refl True this]] show ?thesis .
  next
    case False
    with 1(2) s k show ?thesis by (subst (asm) drain.simps) simp
  qed
qed

lemma read_line_hellos: "read_line_loop m l c = Some (r, c') \<Longrightarrow> keeps_hellos c c'"
proof (induction m l c rule: read_line_loop.induct)
  case (1 m l c)
  obtain s err c1 where s: "ReadSlice c = Some ((s, err), c1)"
    using 1(2) by (subst (asm) read_line_loop.simps) (auto split: option.splits)
  have k: "keeps_hellos c c1" using ReadSlice_hellos [OF s] by (simp add: keeps_hellos_def)
  show ?case
  proof (cases "\<not> m < int (length (l @ s)) \<and> err = Some ErrBufferFull")
    case True
    then have n: "\<not> m < int (length (l @ s))" and e: "err = Some ErrBufferFull" by simp_all
    with 1(2) s have "read_line_loop m (l @ s) c1 = Some (r, c')"
      by (subst (asm) read_line_loop.simps) (simp add: Let_def)
    from keeps_hellos_trans [OF k 1(1) [OF s refl refl refl n e refl this]] show ?thesis .
  next
    case False
    with 1(2) s have "c' = c1 \<or> drain c1 = Some c'"
      by (subst (asm) read_line_loop.simps) (auto simp: Let_def split: if_splits option.splits)
    with k drain_hellos [of c1 c'] show ?thesis by (auto intro: keeps_hellos_trans)
  qed
qed

lemma read_n_hellos: "read_n n c = Some (r, c') \<Longrightarrow> keeps_hellos c c'"
proof (induction n c arbitrary: r rule: read_n.induct)
  case (1 n c)
  consider "n = 0" | "n \<noteq> 0" "rbuf c \<noteq> []" | "n \<noteq> 0" "\<not> rbuf c \<noteq> []" by blast
  then show ?case
  proof cases
    case 1
    with \<open>read_n n c = _\<close> show ?thesis by (subst (asm) read_n.simps) simp
  next
    case 2
    define k where "k = min n (length (rbuf c))"
    from 2 1(3) obtain r' where "read_n (n - k) (c\<lparr>rbuf := drop k (rbuf c)\<rparr>) = Some (r', c')"
      unfolding k_def by (subst (asm) read_n.simps) (auto simp: Let_def split: option.splits)
    from 1(1) [OF 2 k_def this] show ?thesis by (simp add: keeps_hellos_def)
  next
    case 3
    from 1(3) 3 obtain x c1 where n: "net_read (max n bufio_size) c = Some (x, c1)"
      by (subst (asm) read_n.simps) (auto split: option.splits)
    have h: "keeps_hellos c c1"
      using read_evs_hellos [OF n [unfolded net_read_def]] by (simp add: keeps_hellos_def)
    show ?thesis
    proof (cases x)
      case (Inl e)
      with n 1(3) 3 h show ?thesis by (subst (asm) read_n.simps) simp
    next
      case (Inr d)
      define k where "k = min n (length d)"
      from n Inr 1(3) 3 obtain r' where "read_n (n - k) (c1\<lparr>rbuf := drop k d\<rparr>) = Some (r', c')"
        unfolding k_def by (subst (asm) read_n.simps) (auto simp: Let_def split: option.splits)
      from 1(2) [OF 3 n refl Inr k_def this] h show ?thesis by (simp add: keeps_hellos_def)
    qed
  qed
qed

section \<open>Connections in the clear\<close>

text \<open>Calls that only an authenticated or an authenticating client may cause.\<close>

fun privileged :: "obs \<Rightarrow> bool" where
  "privileged (OAuthPlain _ _ _ _) = True"
| "privileged (OLogin _ _ _) = True"
| "privileged (OScript _) = True"
| "privileged _ = False"

definition in_clear :: "'s conn \<Rightarrow> bool" where
  "in_clear c \<longleftrightarrow> \<not> isTLS c \<and> \<not> authenticated c \<and> hellos (inp c) = {}
     \<and> list_all (\<lambda>e. \<not> privileged e) (trace c)"

lemma clear_responds: "responds c c' \<Longrightarrow> in_clear c \<Longrightarrow> in_clear c'"
  by (simp add: in_clear_def responds_fields)

lemma clear_io: "io_step c c' \<Longrightarrow> keeps_hellos c c' \<Longrightarrow> in_clear c \<Longrightarrow> in_clear c'"
  using io_step_fields [of c c'] by (auto simp: in_clear_def keeps_hellos_def)

lemma clear_log: "\<not> privileged e \<Longrightarrow> in_clear c \<Longrightarrow> in_clear (log_obs e c)"
  by (simp add: in_clear_def)

lemma clear_upd [simp]:
  "in_clear (c\<lparr>closePending := b\<rparr>) = in_clear c" "in_clear (c\<lparr>lastErr := e\<rparr>) = in_clear c"
  "in_clear (c\<lparr>cmdStart := t\<rparr>) = in_clear c" "in_clear (setDeadline d c) = in_clear c"
  "in_clear (setReadDeadline d c) = in_clear c" "in_clear (armRead env c) = in_clear c"
  by (simp_all add: in_clear_def)

lemma clear_Flush: "Flush c = Some (err, c') \<Longrightarrow> in_clear c \<Longrightarrow> in_clear c'"
  using Flush_facts [of c err c'] by (auto intro: clear_io io_step_Flush simp: write_frame_def)

lemma clear_flush:
  assumes "flush c = Some (err, c')" "in_clear c" shows "in_clear c'"
proof -
  have h: "hellos (inp c') \<subseteq> hellos (inp c)"
    using assms(1)
  proof (cases rule: flush_cases)
    case plain
    with Flush_facts [OF plain] show ?thesis by (simp add: write_frame_def)
  next
    case (failed c1)
    then obtain e where "tls_evs (min_deadline (rdl (armWrite c)) None) (inp (armWrite c)) (armWrite c) = Some (Some e, c1)"
      by (auto simp: HandshakeContext_def)
    from tls_hellos [OF this] failed(4) show ?thesis by simp
  next
    case (secured c1)
    from tls_success [OF secured(3) [unfolded HandshakeContext_def]] have "inp c1 \<in> hellos (inp c)"
      by (auto simp: hellos_def)
    with assms(2) show ?thesis by (simp add: in_clear_def)
  qed
  show ?thesis by (rule clear_io [OF io_step_flush [OF assms(1)] _ assms(2)]) (simp add: keeps_hellos_def h)
qed

lemma clear_readLine: "readLine env c = Some (r, c') \<Longrightarrow> in_clear c \<Longrightarrow> in_clear c'"
  by (rule clear_io [OF io_step_readLine])
     (auto simp: readLine_def readBoundedLine_def intro: read_line_hellos)

lemma clear_ReadFull: "ReadFull n c = Some (x, c') \<Longrightarrow> in_clear c \<Longrightarrow> in_clear c'"
  by (rule clear_io [OF io_step_ReadFull]) (auto simp: ReadFull_def intro: read_n_hellos)

lemma clear_read_body:
  assumes "read_body (ReadFull n) env c = Some (r, c')" "in_clear c"
  shows "in_clear c'"
proof -
  have r: "in_clear c1" if "ReadFull n (armRead env c) = Some (x, c1)" for x c1
    using clear_ReadFull [OF that] assms(2) by simp
  from assms(1) show ?thesis
  proof (cases rule: read_body_cases)
    case (body e data c1)
    with r show ?thesis by simp
  next
    case (line e data c1 c2)
    with r clear_readLine [OF line(2)] show ?thesis by simp
  next
    case (complete data rest c1 c2)
    with r clear_readLine [OF complete(2)] show ?thesis by simp
  qed
qed

lemma clear_continuation:
  assumes "(if nonSync then Some (None, c) else Flush (writeLine ''+'' c)) = Some (e, c1)" "in_clear c"
  shows "in_clear c1"
  using assms clear_Flush clear_responds [OF responds_writeLine, of c "''+''"] by (auto split: if_splits)

lemma clear_resolve_step:
  assumes "resolve_step env marker c = Some (r, c')" "in_clear c"
  shows "in_clear c'"
proof -
  have ce: "in_clear (clientError env m d)" if "in_clear d" for m d
    by (rule clear_responds [OF responds_clientError that])
  have no: "in_clear (no m d)" if "in_clear d" for m d by (rule clear_responds [OF responds_no that])
  obtain ns v where m: "marker = (ns, v)" by fastforce
  show ?thesis
  proof (cases "\<exists>n. v = Inr n \<and> \<not> MaxLineLength (opts env) < n")
    case False
    with assms m show ?thesis by (auto simp: resolve_step_def Let_def ce split: sum.splits if_splits)
  next
    case True
    then obtain n e c1 where v: "v = Inr n" "\<not> MaxLineLength (opts env) < n"
      and f: "(if ns then Some (None, c) else Flush (writeLine ''+'' c)) = Some (e, c1)"
      using assms(1) m by (auto simp: resolve_step_def bind_Some_iff)
    have k: "in_clear c1" by (rule clear_continuation [OF f assms(2)])
    show ?thesis
    proof (cases e)
      case (Some err)
      with f v m assms(1) k show ?thesis by (auto simp: resolve_step_def)
    next
      case None
      with f v m assms(1) obtain q c2 where b: "read_body (ReadFull (nat n)) env c1 = Some (q, c2)"
        by (auto simp: resolve_step_def bind_Some_iff)
      have k2: "in_clear c2" by (rule clear_read_body [OF b k])
      from None f v m assms(1) b have "(case q of
          Inl e \<Rightarrow> Some (None, (no (dq ''Failed to read literal argument'') (c2\<lparr>lastErr := Some e\<rparr>))
            \<lparr>closePending := True\<rparr>)
        | Inr (body, rest) \<Rightarrow> (case parseTokens (TrimSpace rest) of
             Inl perr \<Rightarrow> Some (None, clientError env (''Invalid command syntax: '' @ perr)
                 (c2\<lparr>lastErr := Some (PlainErr perr)\<rparr>))
           | Inr extra \<Rightarrow> Some (Some (body, extra), c2))) = Some (r, c')"
        by (simp add: resolve_step_def)
      with k2 show ?thesis by (auto simp: ce no split: sum.splits prod.splits)
    qed
  qed
qed

lemma clear_resolve:
  "resolveLiteralArgs env cmd args c = Some (r, c') \<Longrightarrow> in_clear c \<Longrightarrow> in_clear c'"
proof (induction env cmd args c arbitrary: r rule: resolveLiteralArgs.induct)
  case (1 env cmd args c)
  show ?case
  proof (cases "\<exists>mk. args \<noteq> [] \<and> literalLength (last args) = Some mk \<and> \<not> literalDeferred cmd (length args - 1)")
    case False
    with 1(2,3) show ?thesis by (subst (asm) resolveLiteralArgs.simps) (auto split: if_splits option.splits)
  next
    case True
    then obtain mk where m: "args \<noteq> []" "literalLength (last args) = Some mk"
      "\<not> literalDeferred cmd (length args - 1)" by blast
    with 1(2) obtain q c1 where q: "resolve_step env mk c = Some (q, c1)"
      by (subst (asm) resolveLiteralArgs.simps) (auto split: option.splits)
    have k: "in_clear c1" by (rule clear_resolve_step [OF q 1(3)])
    show ?thesis
    proof (cases q)
      case None
      with 1(2) m q k show ?thesis by (subst (asm) resolveLiteralArgs.simps) simp
    next
      case (Some be)
      obtain body extra where be: "be = (body, extra)" by fastforce
      with 1(2) m q Some have
        "resolveLiteralArgs env cmd (args[length args - 1 := Quote body] @ extra) c1 = Some (r, c')"
        by (subst (asm) resolveLiteralArgs.simps) simp
      with 1(1) [OF m(1,2,3) q refl] Some be k show ?thesis by blast
    qed
  qed
qed

section \<open>Commands in the clear\<close>

text \<open>Where authentication needs TLS and no handler for unknown commands is installed.\<close>

definition tls_only :: "'s env \<Rightarrow> bool" where
  "tls_only env \<longleftrightarrow> \<not> InsecureAuth (opts env) \<and> UnknownCommandHandler env = None"

lemma clear_clientError: "in_clear c \<Longrightarrow> in_clear (clientError env m c)"
  by (rule clear_responds [OF responds_clientError])

lemma clear_writeLine: "in_clear c \<Longrightarrow> in_clear (writeLine l c)"
  by (rule clear_responds [OF responds_writeLine])

lemma clear_auth:
  assumes "in_clear c" "tls_only env"
  shows "handleAuthenticate env args c = Some c' \<Longrightarrow> in_clear c'"
    and "handleLogin env lg args c = Some c' \<Longrightarrow> in_clear c'"
  using assms clear_clientError
  by (auto simp: handleAuthenticate_def handleLogin_def authAllowed_def tls_only_def in_clear_def
      split: list.splits)

lemma clear_unknown:
  "in_clear c \<Longrightarrow> tls_only env \<Longrightarrow> dispatchUnknown env cmd args c = Some (q, c') \<Longrightarrow> in_clear c'"
  by (auto simp: dispatchUnknown_def tls_only_def reject_unknown_def intro: clear_clientError)

lemma clear_handshake:
  assumes "HandshakeContext ctx c = Some (err, c')" "in_clear c"
  shows "err \<noteq> None \<and> in_clear c'"
proof (cases err)
  case None
  from tls_success [OF assms(1) [unfolded HandshakeContext_def None]]
  have "inp c' \<in> hellos (inp c)" by (auto simp: hellos_def)
  with assms(2) show ?thesis by (simp add: in_clear_def)
next
  case (Some e)
  note t = assms(1) [unfolded HandshakeContext_def Some]
  have "io_step c c'" using tls_frame [OF t] tls_werr [OF t] by (simp add: io_step_def cost_def)
  moreover have "keeps_hellos c c'" using tls_hellos [OF t] by (simp add: keeps_hellos_def)
  ultimately show ?thesis using Some clear_io assms(2) by blast
qed

lemma clear_starttls:
  assumes "handleStartTLS env ctx c = Some (q, c')" "in_clear c"
  shows "in_clear c'"
proof (cases "TLSConfig (opts env) \<and> rbuf c = []")
  case False
  with assms show ?thesis
    using clear_clientError clear_responds [OF responds_no_err, of c]
    by (auto simp: handleStartTLS_def in_clear_def split: if_splits)
next
  case True
  have f: "\<not> isTLS c" "\<not> authenticated c" using assms(2) by (simp_all add: in_clear_def)
  obtain e c1 where w: "Flush (writeLine (''OK '' @ dq ''Begin TLS negotiation'') c) = Some (e, c1)"
    using assms(1) True f by (auto simp: handleStartTLS_def bind_Some_iff)
  have k: "in_clear c1" by (rule clear_Flush [OF w clear_writeLine [OF assms(2)]])
  show ?thesis
  proof (cases e)
    case (Some err)
    with w assms(1) True f k show ?thesis by (simp add: handleStartTLS_def)
  next
    case None
    let ?c2 = "case nextReadDeadline env c1 of None \<Rightarrow> c1 | Some d \<Rightarrow> setDeadline (Some d) c1"
    have k2: "in_clear ?c2" using k by (simp split: option.splits)
    from None w assms(1) True f obtain he c3 where h: "HandshakeContext ctx ?c2 = Some (he, c3)"
      by (auto simp: handleStartTLS_def bind_Some_iff Let_def)
    from clear_handshake [OF h k2] None w assms(1) True f h show ?thesis
      by (auto simp: handleStartTLS_def Let_def)
  qed
qed

lemma clear_dispatch:
  assumes "dispatch env ctx cmd args c = Some (q, c')" "in_clear c" "tls_only env"
  shows "in_clear c'"
proof -
  have "\<not> authenticated c" using assms(2) by (simp add: in_clear_def)
  moreover have "in_clear (sendCapabilityBlock env c)"
    by (rule clear_responds [OF responds_capabilities assms(2)])
  ultimately show ?thesis
    using assms(1) clear_auth [OF assms(2,3)] clear_unknown [OF assms(2,3)]
      clear_starttls [OF _ assms(2)] clear_clientError [OF assms(2)] clear_writeLine assms(2)
    by (auto simp: dispatch_def bind_Some_iff split: if_splits option.splits)
qed

lemma clear_execute:
  assumes "execute env line c = Some (q, c')" "in_clear c" "tls_only env"
  shows "in_clear c'"
proof (cases "\<exists>cmd args. TrimSpace line \<noteq> [] \<and> parseLine (up env) (TrimSpace line) = (cmd, Inr args) \<and> cmd \<noteq> []")
  case False
  with assms show ?thesis
    by (auto simp: execute_def Let_def intro: clear_clientError split: if_splits sum.splits prod.splits)
next
  case True
  then obtain cmd args where l: "TrimSpace line \<noteq> []" "parseLine (up env) (TrimSpace line) = (cmd, Inr args)"
    "cmd \<noteq> []" by blast
  then obtain r c1 where r: "resolveLiteralArgs env cmd args c = Some (r, c1)"
    using assms by (auto simp: execute_def bind_Some_iff)
  have k: "in_clear c1" by (rule clear_resolve [OF r assms(2)])
  show ?thesis
  proof (cases r)
    case None
    with assms l r k show ?thesis by (simp add: execute_def)
  next
    case (Some args')
    let ?c = "(setDeadline None c1)\<lparr>lastErr := None, cmdStart := now c1\<rparr>"
    from Some assms l r obtain quit c2 where
      d: "dispatch env (cmdCtx env c1) cmd args' ?c = Some (quit, c2)"
      and c': "c' = c2 \<or> (\<exists>t e. c' = log_obs (OCommand cmd t e) c2)"
      by (auto simp: execute_def run_command_def Let_def bind_Some_iff split: if_splits)
    have "in_clear c2" by (rule clear_dispatch [OF d _ assms(3)]) (simp add: k)
    with c' show ?thesis by (auto intro: clear_log)
  qed
qed

section \<open>Whole runs in the clear\<close>

lemma clear_end_turn: "end_turn env q c = Some (b, c') \<Longrightarrow> in_clear c \<Longrightarrow> in_clear c'"
  by (auto simp: end_turn_def Let_def bind_Some_iff intro: clear_Flush clear_writeLine split: if_splits)

lemma clear_farewell: "farewell l c = Some c' \<Longrightarrow> in_clear c \<Longrightarrow> in_clear c'"
  by (auto simp: farewell_def intro: clear_Flush clear_writeLine)

lemma clear_end_timeout: "end_timeout env m k c = Some c' \<Longrightarrow> in_clear c \<Longrightarrow> in_clear c'"
  using clear_farewell [of "bye m" c] clear_log [of "OTimeout k"]
  by (auto simp: end_timeout_def report_timeout_def)

lemma clear_shutdown: "shutdownBye env c = Some c' \<Longrightarrow> in_clear c \<Longrightarrow> in_clear c'"
  by (auto simp: shutdownBye_def intro: clear_farewell clear_end_timeout split: if_splits)

lemma clear_failed: "read_failed env e c = Some c' \<Longrightarrow> in_clear c \<Longrightarrow> in_clear c'"
  by (auto simp: read_failed_def intro: clear_farewell clear_end_timeout clear_shutdown split: if_splits)

lemma clear_turn:
  assumes "serve_turn env c = Some (b, c')" "in_clear c" "tls_only env"
  shows "in_clear c'"
  using assms(1)
proof (cases rule: serve_turn_cases)
  case shutdown
  then show ?thesis by (blast intro: clear_shutdown assms(2))
next
  case (failed e c1)
  have "in_clear c1" by (rule clear_readLine [OF failed(2)]) (simp add: assms(2))
  with failed(3) show ?thesis by (rule clear_failed)
next
  case (line l c1 q c2)
  have "in_clear c1" by (rule clear_readLine [OF line(2)]) (simp add: assms(2))
  from clear_execute [OF line(3) this assms(3)] have "in_clear c2" .
  with line(4) show ?thesis by (auto intro: clear_end_turn split: option.splits)
qed

lemma clear_serve:
  assumes "serve env c = Some c'" "fresh c" "in_clear c" "tls_only env"
  shows "\<not> authenticated c' \<and> list_all (\<lambda>e. \<not> privileged e) (trace c')"
proof -
  have g: "in_clear c1" if "flush (sendGreeting env c) = Some (err, c1)" for err c1
    by (rule clear_flush [OF that clear_responds [OF responds_greeting assms(3)]])
  have fin: ?thesis if "in_clear b" "c' = close_conn env b" for b
    using that by (simp add: in_clear_def close_conn_trace)
  from assms(1) show ?thesis
  proof (cases rule: serve_cases)
    case (greeting e c1)
    show ?thesis by (rule fin [OF g [OF greeting(1)] greeting(2)])
  next
    case (loop c1 c2)
    have nh: "\<not> hijacked c1" using greeting_step(4) [OF loop(1)] assms(2) by (simp add: fresh_def)
    from serve_loop_last [OF loop(2) nh, of in_clear, OF g [OF loop(1)]]
    obtain b where "in_clear b" "serve_turn env b = Some (False, c2)"
      using clear_turn [OF _ _ assms(4)] by blast
    from clear_turn [OF this(2,1) assms(4)] show ?thesis using loop(3) by (rule fin)
  qed
qed

section \<open>Properties\<close>

text \<open>C3. No authentication in the clear, over whole runs: without \<open>InsecureAuth\<close>, a connection that does
  not start under TLS and whose peer completes no TLS handshake never authenticates, and neither
  \<open>AuthenticatePlain\<close> nor \<open>Login\<close> nor any script method of the session is ever called - whatever
  commands, literals and errors the peer sends (no \<open>UnknownCommandHandler\<close> being installed, which may
  itself override the TLS flag).\<close>

theorem no_cleartext_login:
  assumes "\<not> InsecureAuth (opts env)" and "UnknownCommandHandler env = None"
    and "fresh c" and "\<not> isTLS c" and "\<forall>h inner. TlsHello h inner \<notin> set (inp c)"
    and "serve env c = Some c'"
  shows "\<not> authenticated c' \<and> (\<forall>e\<in>set (trace c'). \<not> privileged e)"
proof -
  have "in_clear c" using assms(3-5) by (auto simp: in_clear_def fresh_def hellos_def)
  with clear_serve [OF assms(6,3)] assms(1,2) show ?thesis by (simp add: tls_only_def list_all_iff)
qed

definition strict_env :: "mem_session env" where
  "strict_env = env_of (defaults zero_opts)"

theorem no_cleartext_login_witness:
  "\<exists>c'. serve strict_env (sample_conn sample_run) = Some c' \<and> \<not> authenticated c'
     \<and> (\<forall>e\<in>set (trace c'). \<not> privileged e)"
proof -
  have "returns (serve strict_env (sample_conn sample_run))" unfolding returns_def by code_simp
  then obtain c' where r: "serve strict_env (sample_conn sample_run) = Some c'" by (auto simp: returns_def)
  have "\<not> InsecureAuth (opts strict_env)" "UnknownCommandHandler strict_env = None"
    "\<not> isTLS (sample_conn sample_run)" by code_simp+
  moreover have "\<forall>h inner. TlsHello h inner \<notin> set (inp (sample_conn sample_run))"
    by (simp add: sample_conn_def with_session_def fresh_conn_def sample_run_def lines_def)
  ultimately show ?thesis using no_cleartext_login [OF _ _ sample_fresh _ _ r] r by blast
qed

text \<open>On an empty queue the greeting is the capabilities of the connection it leaves, then the OK line.\<close>

lemma greeting_queue:
  assumes "wbuf d = []" "werr d = None"
  shows "wbuf (sendGreeting env d)
    = concat (map (\<lambda>l. l @ CRLF) (capability_lines env (sendGreeting env d)))
      @ greeting_line env (sendGreeting env d) @ CRLF"
proof -
  have "capability_lines env (sendGreeting env d) = capability_lines env d"
    "greeting_line env (sendGreeting env d) = greeting_line env d"
    "greeting_line env (sendCapabilityBlock env d) = greeting_line env d"
    by (simp_all add: capability_lines_def greeting_line_def startTLSAvailable_def authAllowed_def Let_def)
  with assms show ?thesis by (simp add: sendGreeting_def sendCapabilityBlock_def Let_def)
qed

text \<open>The one line each refusal queues.\<close>

definition refusal :: "string \<Rightarrow> 's conn \<Rightarrow> 's conn \<Rightarrow> bool" where
  "refusal msg c c' \<longleftrightarrow> \<not> isTLS c' \<and> inp c' = inp c \<and> rbuf c' = rbuf c \<and> sent c' = sent c \<and> trace c' = trace c
     \<and> authenticated c' = authenticated c \<and> (werr c = None \<longrightarrow> wbuf c' = wbuf c @ ''NO '' @ dq msg @ CRLF)"

lemma refusal_clientError:
  "Quote (SanitizeText msg) = dq msg \<Longrightarrow> \<not> isTLS c \<Longrightarrow> refusal msg c (clientError env msg c)"
  by (simp add: refusal_def clientError_wbuf)

lemma refusal_no: "stripCRLF (dq msg) = dq msg \<Longrightarrow> \<not> isTLS c \<Longrightarrow> refusal msg c (no (dq msg) (c\<lparr>lastErr := e\<rparr>))"
  by (simp add: refusal_def no_wbuf)

text \<open>C18. The server's STARTTLS: once authenticated it is refused with one NO line and the connection goes
  on as it was; a client that pipelined plaintext behind it is cut off with one NO line before any
  handshake; and after a successful upgrade nothing of the plaintext is left - the client was sent the OK
  line and no more, the reader is empty, the input is the encrypted stream of a handshake the peer
  really made, the output queue holds the fresh capability greeting only, and nobody is authenticated.\<close>

theorem starttls_clean:
  assumes "handleStartTLS env ctx c = Some (quit, c')" and "\<not> isTLS c"
  shows "(TLSConfig (opts env) \<and> authenticated c \<longrightarrow>
        \<not> quit \<and> refusal ''STARTTLS not permitted after authentication'' c c')
    \<and> (\<not> TLSConfig (opts env) \<longrightarrow> \<not> quit \<and> refusal ''STARTTLS not supported'' c c')
    \<and> (TLSConfig (opts env) \<and> \<not> authenticated c \<and> rbuf c \<noteq> [] \<longrightarrow>
        quit \<and> refusal ''Pipelined data after STARTTLS is not allowed'' c c')
    \<and> (isTLS c' \<longrightarrow> sent c' = sent c @ wbuf c @ ''OK '' @ dq ''Begin TLS negotiation'' @ CRLF \<and> \<not> quit \<and> rbuf c = [] \<and> rbuf c' = [] \<and> \<not> authenticated c'
        \<and> (\<exists>h. TlsHello h (inp c') \<in> set (inp c))
        \<and> wbuf c' = concat (map (\<lambda>l. l @ CRLF) (capability_lines env c')) @ greeting_line env c' @ CRLF)"
proof (cases "TLSConfig (opts env) \<and> \<not> authenticated c \<and> rbuf c = []")
  case False
  have q: "Quote (SanitizeText ''STARTTLS not permitted after authentication'')
        = dq ''STARTTLS not permitted after authentication''"
      "Quote (SanitizeText ''STARTTLS not supported'') = dq ''STARTTLS not supported''"
      "stripCRLF (dq ''Pipelined data after STARTTLS is not allowed'')
        = dq ''Pipelined data after STARTTLS is not allowed''"
    by code_simp+
  note r = refusal_clientError [OF q(1) assms(2)] refusal_clientError [OF q(2) assms(2)]
    refusal_no [OF q(3) assms(2)]
  from False assms r show ?thesis by (auto simp: handleStartTLS_def split: if_splits)
next
  case True
  obtain e c1 where w: "Flush (writeLine (''OK '' @ dq ''Begin TLS negotiation'') c) = Some (e, c1)"
    using assms True by (auto simp: handleStartTLS_def bind_Some_iff)
  have i: "inp c1 = inp c" "isTLS c1 = isTLS c" "authenticated c1 = authenticated c"
    using Flush_facts [OF w] io_step_fields [OF io_step_Flush [OF w]] by (simp_all add: write_frame_def)
  show ?thesis
  proof (cases e)
    case (Some err)
    with w assms True i show ?thesis by (simp add: handleStartTLS_def)
  next
    case None
    let ?c2 = "case nextReadDeadline env c1 of None \<Rightarrow> c1 | Some d \<Rightarrow> setDeadline (Some d) c1"
    have 2: "inp ?c2 = inp c" "isTLS ?c2 = isTLS c" "authenticated ?c2 = authenticated c"
      using i by (simp_all split: option.splits)
    from None w assms True obtain he c3 where h: "HandshakeContext ctx ?c2 = Some (he, c3)"
      by (auto simp: handleStartTLS_def bind_Some_iff Let_def)
    have 3: "isTLS c3 = isTLS c" "authenticated c3 = authenticated c"
      using tls_frame [OF h [unfolded HandshakeContext_def]] 2(2,3) by (cases c3; cases ?c2; simp)+
    show ?thesis
    proof (cases he)
      case (Some err)
      with None w assms True h 3 show ?thesis by (auto simp: handleStartTLS_def Let_def)
    next
      case ok: None
      let ?d = "(setDeadline None c3)\<lparr>rbuf := [], wbuf := [], werr := None, isTLS := True\<rparr>"
      have c': "c' = sendGreeting env ?d" "\<not> quit"
        using None w assms True h ok by (auto simp: handleStartTLS_def Let_def)
      have t: "\<exists>x. TlsHello x (inp c3) \<in> set (inp c)"
        using tls_success [OF h [unfolded HandshakeContext_def ok]] 2(1) by auto
      have "wbuf c' = concat (map (\<lambda>l. l @ CRLF) (capability_lines env c')) @ greeting_line env c' @ CRLF"
        unfolding c'(1) by (rule greeting_queue) simp_all
      moreover have "sent c' = sent c @ wbuf c @ ''OK '' @ dq ''Begin TLS negotiation'' @ CRLF"
      proof -
        have "werr c = None" using Flush_facts [OF w] None by simp
        then have "wbuf (writeLine (''OK '' @ dq ''Begin TLS negotiation'') c)
            = wbuf c @ (''OK '' @ dq ''Begin TLS negotiation'') @ CRLF" by (rule writeLine_wbuf)
        moreover have "sent c1 = sent c @ wbuf (writeLine (''OK '' @ dq ''Begin TLS negotiation'') c)"
          using Flush_facts [OF w] None by (metis append.right_neutral responds_fields(3) [OF responds_writeLine])
        ultimately have "sent c1 = sent c @ wbuf c @ ''OK '' @ dq ''Begin TLS negotiation'' @ CRLF" by simp
        moreover have "sent c3 = sent c1"
          using tls_frame [OF h [unfolded HandshakeContext_def]] by (simp split: option.splits)
        ultimately show ?thesis by (simp add: c'(1))
      qed
      ultimately show ?thesis using c' t True 3 by simp
    qed
  qed
qed

theorem starttls_clean_witness:
  "\<exists>quit c'. handleStartTLS sample_env None (sample_conn [TlsHello [] [Data ''NOOP'']]) = Some (quit, c')
     \<and> isTLS c' \<and> rbuf c' = [] \<and> \<not> quit \<and> (\<exists>h. TlsHello h (inp c') = TlsHello [] [Data ''NOOP''])"
proof -
  let ?c = "sample_conn [TlsHello [] [Data ''NOOP'']]"
  have "map_option (\<lambda>(q, c). isTLS c) (handleStartTLS sample_env None ?c) = Some True" by code_simp
  then obtain quit c' where r: "handleStartTLS sample_env None ?c = Some (quit, c')" "isTLS c'" by auto
  have "\<not> isTLS ?c" "set (inp ?c) = {TlsHello [] [Data ''NOOP'']}" by code_simp+
  with starttls_clean [OF r(1)] r show ?thesis by auto
qed

end
