(* ===== verification/Shutdown.thy ===== *)
theory Shutdown
  imports Bodies
begin

text \<open>
  A shutdown seen from one connection: what \<open>Server.Close\<close>'s kick does to a connection that is blocked in
  the read of its command loop. It is what \<open>Lifecycle\<close> takes for granted of a kicked read: it ends at once,
  and the loop with it.
\<close>

section \<open>The kick\<close>

lemma kicked_read:
  assumes "poisoned c" "expired (rdl c) (now c)" "rbuf c = []"
  shows "\<exists>e c'. readLine env (armRead env c) = Some (Inl e, c') \<and> now c' = now c"
proof -
  have "armRead env c = c" using assms(1) by (simp add: armRead_def setReadDeadline_def split: option.split)
  then show ?thesis using assms
    by (cases "inp c") (simp_all add: readLine_def readBoundedLine_def read_line_loop.simps ReadSlice.simps
        net_read_def bufio_size_def)
qed

lemma cut_read:
  assumes "inp c = Cancel # es" "\<not> expired (rdl c) (now c)" "LF \<notin> set (rbuf c)" "length (rbuf c) < 4096"
  shows "\<exists>e. readBoundedLine m c = Some (Inl e, (forceReadUnblock (c\<lparr>inp := es, cancelled := True\<rparr>))\<lparr>rbuf := []\<rparr>)"
proof -
  have "index_byte LF (rbuf c) = None" using assms(3) by (simp add: index_byte_None)
  with assms show ?thesis
    by (simp add: readBoundedLine_def read_line_loop.simps ReadSlice.simps net_read_def bufio_size_def forceReadUnblock_def)
qed

text \<open>C14. \<open>Close\<close> reaching a connection that waits for a command - whatever part of a line it has - ends the
  loop at once, without time passing and without any call of the session, and the client is told so with
  exactly one BYE line.\<close>

theorem kicked_client_gets_bye:
  assumes "inp c = Cancel # es" "LF \<notin> set (rbuf c)" "length (rbuf c) < 4096" "wbuf c = []"
    and "\<not> ctxErr c" "\<not> absolute_over env c" "\<not> expired (rdl (armRead env c)) (now c)" "writable c"
  shows "\<exists>c'. serve_loop env c = Some c' \<and> now c' = now c \<and> trace c' = trace c
    \<and> sent c' = sent c @ bye ''Server shutting down, please reconnect'' @ CRLF"
proof -
  let ?a = "armRead env c"
  obtain d where a: "?a = c\<lparr>rdl := d\<rparr>"
    by (cases "nextReadDeadline env c"; cases "poisoned c")
      (auto simp: armRead_def setReadDeadline_def intro: that [of "rdl c"])
  let ?k = "(forceReadUnblock (?a\<lparr>inp := es, cancelled := True\<rparr>))\<lparr>rbuf := []\<rparr>"
  obtain e where r: "readLine env ?a = Some (Inl e, ?k)"
    using cut_read [of ?a es "MaxLineLength (opts env)"] assms a unfolding readLine_def by auto
  let ?w = "writeLine (bye ''Server shutting down, please reconnect'') ?k"
  have k: "ctxErr ?k" "\<not> absolute_over env ?k"
    using assms(6) by (simp_all add: a ctxErr_def absolute_over_def forceReadUnblock_def)
  have w: "wbuf ?w = bye ''Server shutting down, please reconnect'' @ CRLF" "writable ?w" "sent ?w = sent c"
      "now ?w = now c" "trace ?w = trace c"
    using assms(4,8) by (simp_all add: a writeLine_def WriteString_def writable_def forceReadUnblock_def)
  define f where "f = (armWrite ?w)\<lparr>sent := sent ?w @ wbuf ?w, wbuf := [], wplan := Accepts\<rparr>"
  have "Flush ?w = Some (None, f)" unfolding f_def using Flush_writable [OF w(2)] w(1) by simp
  then have "read_failed env e ?k = Some f"
    using k by (simp add: read_failed_def shutdownBye_def farewell_def)
  then have "serve_turn env c = Some (False, f)" using assms(5) r by (simp add: serve_turn_def)
  then have "serve_loop env c = Some f" by (simp add: serve_loop.simps [of env c])
  moreover have "now f = now c" "trace f = trace c" "sent f = sent c @ bye ''Server shutting down, please reconnect'' @ CRLF"
    using w armWrite_shape [of ?w] by (auto simp: f_def)
  ultimately show ?thesis by blast
qed

theorem kicked_client_gets_bye_witness:
  "\<exists>c'. serve_loop sample_env (sample_conn [Cancel]) = Some c'
     \<and> sent c' = bye ''Server shutting down, please reconnect'' @ CRLF"
proof -
  let ?c = "sample_conn [Cancel]"
  have "inp ?c = Cancel # []" "LF \<notin> set (rbuf ?c)" "length (rbuf ?c) < 4096" "wbuf ?c = []" "sent ?c = []"
    "\<not> ctxErr ?c" "\<not> absolute_over sample_env ?c"
    "\<not> expired (rdl (armRead sample_env ?c)) (now ?c)" "writable ?c"
    by (code_simp | simp add: writable_def sample_conn_def)+
  from kicked_client_gets_bye [OF this(1-4,6-9)] this(5) show ?thesis by auto
qed

end
