(* ===== verification/Lifecycle.thy ===== *)
theory Lifecycle
  imports Prelude
begin

text \<open>
  The server around its connections (\<open>server.go\<close>): the accept loop of \<open>Serve\<close>, \<open>Close\<close>, \<open>ServeConn\<close> and
  the registration of connections, as steps of concurrent goroutines on the shared server state. Any
  interleaving is a list of steps. What one connection does between its steps is the subject of \<open>Serve\<close>;
  here it is the sequence of its handshake, reads, writes, commands and exits, each of which may block.
\<close>

section \<open>State\<close>

text \<open>The accept loop: before \<open>Serve\<close> is called, in \<open>Accept\<close>, holding an accepted connection it has not
  yet spawned, in the back-off wait, or returned.\<close>

datatype serve_pc = NotServing | Accepting | Accepted nat | Backing | ServeReturned

text \<open>\<open>Close\<close>: not called, the context cancelled, the listener closed, the connections walked, returned.\<close>

datatype close_pc = NotClosing | Cancelled | ListenerClosed | Walked | CloseReturned

text \<open>A connection's goroutine: started; registered and in the \<open>NewSession\<close> callback; reading the TLS
  handshake that its first flush runs, of the greeting or (\<^const>\<open>False\<close>) of a rejection; writing the
  greeting; at the top of the command loop; blocked in the loop's read; executing a command; blocked in a
  read of a command (a literal, a SASL response, a handshake); in a write of a command (a continuation, the
  STARTTLS answer, the flush of \<open>Hijack\<close>); writing the response at the end of a turn; writing its last
  line (BYE, a framing error, a rejection); with \<open>serve\<close> left; unregistered; ended.\<close>

datatype conn_pc = Absent | Spawned | Setup | Shaking bool | Greeting | LoopTop | Reading | Running | Waiting
  | Pushing | Flushing | Parting | Unwinding | Unregistered | Gone

datatype lsn = NoListener | ListenerOpen | ListenerDown

text \<open>The counter of \<open>sync.WaitGroup\<close> is \<open>wg\<close>; \<open>tracked\<close> are the goroutines it counts, \<open>kicked\<close> the
  connections that \<open>forceReadUnblock\<close> poisoned, \<open>taken\<close> those a callback hijacked. Two things do not
  change: whether writes have a deadline (\<open>WriteTimeout\<close>), and which connections come with a TLS handshake
  still to make, as those of a TLS listener do.\<close>

record server =
  write_limit :: bool
  secure :: "nat set"
  shut :: bool
  listener :: lsn
  conns :: "nat set"
  wg :: nat
  backoff :: int
  serving :: serve_pc
  closing :: close_pc
  thread :: "nat \<Rightarrow> conn_pc"
  tracked :: "nat set"
  kicked :: "nat set"
  taken :: "nat set"

definition New_server :: "bool \<Rightarrow> nat set \<Rightarrow> server" where
  "New_server limit sec = \<lparr>write_limit = limit, secure = sec, shut = False, listener = NoListener, conns = {}, wg = 0, backoff = 0, serving = NotServing,
     closing = NotClosing, thread = (\<lambda>_. Absent), tracked = {}, kicked = {}, taken = {}\<rparr>"

definition registerConn :: "nat \<Rightarrow> server \<Rightarrow> server" where
  "registerConn n s = s\<lparr>conns := insert n (conns s)\<rparr>"

definition unregisterConn :: "nat \<Rightarrow> server \<Rightarrow> server" where
  "unregisterConn n s = s\<lparr>conns := conns s - {n}\<rparr>"

abbreviation goto :: "nat \<Rightarrow> conn_pc \<Rightarrow> server \<Rightarrow> server" where
  "goto n p s \<equiv> s\<lparr>thread := (thread s)(n := p)\<rparr>"

section \<open>The accept loop\<close>

definition maxBackoff :: int where "maxBackoff = 1000000000"

definition next_backoff :: "int \<Rightarrow> int" where
  "next_backoff b = min maxBackoff (if b = 0 then 5000000 else b * 2)"

text \<open>\<open>Call\<close> is the call of \<open>Serve\<close>, \<open>AcceptOk\<close> and \<open>AcceptError\<close> the outcomes of \<open>Accept\<close> (a closed
  listener accepts nothing), \<open>Spawn\<close> the rest of an iteration, \<open>Elapsed\<close> and \<open>Aborted\<close> the two arms of the
  wait.\<close>

datatype serve_act = Call | AcceptOk nat | AcceptError | Spawn | Elapsed | Aborted

fun serve_step :: "serve_act \<Rightarrow> server \<Rightarrow> server option" where
  "serve_step Call s =
     (if serving s = NotServing
      then Some (s\<lparr>listener := ListenerOpen, backoff := 0, serving := Accepting\<rparr>) else None)"
| "serve_step (AcceptOk n) s =
     (if serving s = Accepting \<and> listener s = ListenerOpen \<and> thread s n = Absent
      then Some (s\<lparr>serving := Accepted n\<rparr>) else None)"
| "serve_step AcceptError s =
     (if serving s = Accepting
      then Some (if shut s then s\<lparr>serving := ServeReturned\<rparr>
                 else s\<lparr>backoff := next_backoff (backoff s), serving := Backing\<rparr>) else None)"
| "serve_step Spawn s =
     (case serving s of
        Accepted n \<Rightarrow> (if thread s n = Absent
          then Some (goto n Spawned (s\<lparr>backoff := 0, wg := wg s + 1, tracked := insert n (tracked s),
                 serving := Accepting\<rparr>)) else None)
      | _ \<Rightarrow> None)"
| "serve_step Elapsed s = (if serving s = Backing then Some (s\<lparr>serving := Accepting\<rparr>) else None)"
| "serve_step Aborted s =
     (if serving s = Backing \<and> shut s then Some (s\<lparr>serving := ServeReturned\<rparr>) else None)"

text \<open>\<open>ListenAndServe\<close> and \<open>ListenAndServeTLS\<close>, with the error of \<open>net.Listen\<close> or \<open>tls.Listen\<close>: without a
  listener \<open>Serve\<close> is not called, and without a TLS configuration none is asked for.\<close>

datatype listen_error = ErrClosed | ListenFailed string

definition ListenAndServe :: "string option \<Rightarrow> server \<Rightarrow> (listen_error + server) option" where
  "ListenAndServe failure s = (case failure of
       Some e \<Rightarrow> Some (Inl (ListenFailed e))
     | None \<Rightarrow> map_option Inr (serve_step Call s))"

definition ListenAndServeTLS :: "bool \<Rightarrow> string option \<Rightarrow> server \<Rightarrow> (listen_error + server) option" where
  "ListenAndServeTLS config failure s = (if \<not> config then Some (Inl ErrClosed) else ListenAndServe failure s)"

section \<open>Shutdown\<close>

text \<open>The four statements of \<open>Close\<close>. The walk holds the mutex, so it is one step; a listener that
  \<open>Serve\<close> has not set yet is not closed.\<close>

datatype close_act = Cancel_ctx | Close_listener | Walk | Wait_all

fun close_step :: "close_act \<Rightarrow> server \<Rightarrow> server option" where
  "close_step Cancel_ctx s =
     (if closing s = NotClosing then Some (s\<lparr>shut := True, closing := Cancelled\<rparr>) else None)"
| "close_step Close_listener s =
     (if closing s = Cancelled
      then Some (s\<lparr>listener := (if listener s = NoListener then NoListener else ListenerDown),
                 closing := ListenerClosed\<rparr>) else None)"
| "close_step Walk s =
     (if closing s = ListenerClosed
      then Some (s\<lparr>kicked := kicked s \<union> conns s, closing := Walked\<rparr>) else None)"
| "close_step Wait_all s =
     (if closing s = Walked \<and> wg s = 0 then Some (s\<lparr>closing := CloseReturned\<rparr>) else None)"

section \<open>A connection's goroutine\<close>

text \<open>In \<open>handleConn\<close> and the goroutine around it: \<open>Enter\<close> registers the connection; \<open>Session_ok\<close>, \<open>Reject\<close>,
  \<open>Silent\<close> and \<open>Panic\<close> are the ways out of \<open>NewSession\<close>, the first two with something to flush; a panic
  of any callback ends at \<open>recoverConn\<close>; and when \<open>serve\<close> has returned the deferred calls run:
  \<open>unregisterConn\<close>, then \<open>wg.Done\<close> for a goroutine of \<open>Serve\<close>.

  In \<open>serve\<close>: the handshake made or failed and the greeting sent; \<open>Check\<close>, the top of the loop, where a
  cancelled context ends it with a BYE, and \<open>Expire\<close>, where the connection's own time is up; a read that
  ends with a line, with an error that is answered (a timeout, a framing error, any error during a
  shutdown), or with the end of the connection; a blank line, skipped; a write or a read inside a command,
  and its end; the end of a turn, whose response is taken by the peer and the loop goes on, or ends
  (\<open>Quit\<close>); the last line taken; and a write that fails. \<open>Take\<close> is \<open>Hijack\<close>, in a callback; its flush is a
  write of the command, and in \<open>NewSession\<close> nothing is queued for it.\<close>

datatype conn_act = Enter | Session_ok | Reject | Silent | Panic | Unregister | Done
  | Shaken | Shake_failed | Greeted | Check | Expire | Got_line | Read_failed | Read_closed | Blank
  | Push | Pushed | Ask | Answered | Turn | Turn_done | Quit | Parted | Write_failed | Take

fun handleConn_step :: "conn_act \<Rightarrow> nat \<Rightarrow> server \<Rightarrow> server option" where
  "handleConn_step Enter n s =
     (if thread s n = Spawned then Some (goto n Setup (registerConn n s)) else None)"
| "handleConn_step Session_ok n s =
     (if thread s n = Setup then Some (goto n (if n \<in> secure s then Shaking True else Greeting) s) else None)"
| "handleConn_step Reject n s =
     (if thread s n = Setup then Some (goto n (if n \<in> secure s then Shaking False else Parting) s) else None)"
| "handleConn_step Silent n s = (if thread s n = Setup then Some (goto n Unwinding s) else None)"
| "handleConn_step Panic n s =
     (if thread s n \<in> {Setup, Running} then Some (goto n Unwinding s) else None)"
| "handleConn_step Unregister n s =
     (if thread s n = Unwinding then Some (goto n Unregistered (unregisterConn n s)) else None)"
| "handleConn_step Done n s =
     (if thread s n = Unregistered
      then Some (goto n Gone (if n \<in> tracked s then s\<lparr>wg := wg s - 1\<rparr> else s)) else None)"
| "handleConn_step _ n s = None"

fun loop_step :: "conn_act \<Rightarrow> nat \<Rightarrow> server \<Rightarrow> server option" where
  "loop_step Shaken n s =
     (if thread s n = Shaking True then Some (goto n Greeting s)
      else if thread s n = Shaking False then Some (goto n Parting s) else None)"
| "loop_step Shake_failed n s =
     (if thread s n \<in> {Shaking True, Shaking False} then Some (goto n Unwinding s) else None)"
| "loop_step Greeted n s = (if thread s n = Greeting then Some (goto n LoopTop s) else None)"
| "loop_step Check n s =
     (if thread s n = LoopTop then Some (goto n (if shut s then Parting else Reading) s) else None)"
| "loop_step Expire n s = (if thread s n = LoopTop then Some (goto n Parting s) else None)"
| "loop_step Got_line n s = (if thread s n = Reading then Some (goto n Running s) else None)"
| "loop_step Read_failed n s = (if thread s n = Reading then Some (goto n Parting s) else None)"
| "loop_step Read_closed n s =
     (if thread s n = Reading then Some (goto n (if shut s then Parting else Unwinding) s) else None)"
| "loop_step Blank n s = (if thread s n = Running then Some (goto n LoopTop s) else None)"
| "loop_step Push n s = (if thread s n = Running then Some (goto n Pushing s) else None)"
| "loop_step Pushed n s = (if thread s n = Pushing then Some (goto n Running s) else None)"
| "loop_step Ask n s = (if thread s n = Running then Some (goto n Waiting s) else None)"
| "loop_step Answered n s = (if thread s n = Waiting then Some (goto n Running s) else None)"
| "loop_step Turn n s =
     (if thread s n = Running then Some (goto n (if n \<in> taken s then Unwinding else Flushing) s) else None)"
| "loop_step Turn_done n s = (if thread s n = Flushing then Some (goto n LoopTop s) else None)"
| "loop_step Quit n s = (if thread s n = Flushing then Some (goto n Unwinding s) else None)"
| "loop_step Parted n s = (if thread s n = Parting then Some (goto n Unwinding s) else None)"
| "loop_step Write_failed n s =
     (if thread s n = Pushing then Some (goto n Running s)
      else if thread s n \<in> {Greeting, Flushing, Parting} then Some (goto n Unwinding s) else None)"
| "loop_step _ n s = None"

definition hijack_step :: "nat \<Rightarrow> server \<Rightarrow> server option" where
  "hijack_step n s =
     (if thread s n \<in> {Setup, Running} \<and> n \<notin> taken s
      then Some (unregisterConn n (s\<lparr>taken := insert n (taken s)\<rparr>)) else None)"

definition conn_step :: "conn_act \<Rightarrow> nat \<Rightarrow> server \<Rightarrow> server option" where
  "conn_step a n s =
     (if a = Take then hijack_step n s
      else if a \<in> {Enter, Session_ok, Reject, Silent, Panic, Unregister, Done} then handleConn_step a n s
      else loop_step a n s)"

text \<open>\<open>ServeConn\<close> runs on a goroutine of its caller, outside the wait group.\<close>

definition ServeConn :: "nat \<Rightarrow> server \<Rightarrow> server option" where
  "ServeConn n s =
     (if thread s n = Absent \<and> serving s \<noteq> Accepted n then Some (goto n Spawned s) else None)"

section \<open>Interleavings\<close>

datatype act = Serving serve_act | Closing close_act | Conn conn_act nat | CallServeConn nat

fun server_step :: "act \<Rightarrow> server \<Rightarrow> server option" where
  "server_step (Serving a) s = serve_step a s"
| "server_step (Closing a) s = close_step a s"
| "server_step (Conn a n) s = conn_step a n s"
| "server_step (CallServeConn n) s = ServeConn n s"

fun run :: "act list \<Rightarrow> server \<Rightarrow> server option" where
  "run [] s = Some s"
| "run (a # as) s = Option.bind (server_step a s) (run as)"

inductive reached :: "server \<Rightarrow> bool" where
  init: "reached (New_server limit sec)"
| step: "reached s \<Longrightarrow> server_step a s = Some s' \<Longrightarrow> reached s'"

section \<open>Invariants\<close>

text \<open>The goroutines among \<open>T\<close> that have not ended, and the states past the check of the context.\<close>

definition alive :: "nat set \<Rightarrow> (nat \<Rightarrow> conn_pc) \<Rightarrow> nat set" where
  "alive T t = {n \<in> T. t n \<noteq> Gone}"

fun engaged :: "conn_pc \<Rightarrow> bool" where
  "engaged Reading = True"
| "engaged Running = True"
| "engaged Waiting = True"
| "engaged Pushing = True"
| "engaged Flushing = True"
| "engaged _ = False"

fun early :: "conn_pc \<Rightarrow> bool" where
  "early Absent = True"
| "early Spawned = True"
| "early _ = False"

fun ended :: "conn_pc \<Rightarrow> bool" where
  "ended Unregistered = True"
| "ended Gone = True"
| "ended _ = False"

lemma alive_simps [simp]:
  "t n \<noteq> Gone \<Longrightarrow> p \<noteq> Gone \<Longrightarrow> alive T (t(n := p)) = alive T t"
  "alive T (t(n := Gone)) = alive T t - {n}"
  "t n \<noteq> Gone \<Longrightarrow> alive (insert n T) t = insert n (alive T t)"
  "finite T \<Longrightarrow> finite (alive T t)"
  by (auto simp: alive_def)

lemma in_alive [simp]: "n \<in> alive T t \<longleftrightarrow> n \<in> T \<and> t n \<noteq> Gone"
  by (simp add: alive_def)

lemmas server_defs = conn_step_def hijack_step_def registerConn_def unregisterConn_def ServeConn_def

text \<open>The wait group counts the goroutines of \<open>Serve\<close> that have not ended.\<close>

definition counted :: "server \<Rightarrow> bool" where
  "counted s \<longleftrightarrow> finite (tracked s) \<and> wg s = card (alive (tracked s) (thread s))
     \<and> (\<forall>n\<in>tracked s. thread s n \<noteq> Absent)"

lemma serve_counted: "serve_step a s = Some s' \<Longrightarrow> counted s \<Longrightarrow> counted s'"
  by (cases a) (auto simp: counted_def split: if_splits serve_pc.splits)

lemma conn_counted: "conn_step a n s = Some s' \<Longrightarrow> counted s \<Longrightarrow> counted s'"
  by (cases a) (auto simp: counted_def server_defs split: if_splits)

lemma close_counted: "close_step a s = Some s' \<Longrightarrow> counted s \<Longrightarrow> counted s'"
  by (cases a) (auto simp: counted_def split: if_splits)

lemma serveconn_counted: "ServeConn n s = Some s' \<Longrightarrow> counted s \<Longrightarrow> counted s'"
  by (auto simp: ServeConn_def counted_def split: if_splits)

lemma step_counted: "server_step a s = Some s' \<Longrightarrow> counted s \<Longrightarrow> counted s'"
  by (cases a) (auto intro: serve_counted conn_counted close_counted serveconn_counted)

text \<open>A connection between its registration and the end of its loop is in the set \<open>Close\<close> walks, unless a
  callback hijacked it; a hijacked one is not. After the walk, what may be in a read is kicked.\<close>

definition follows :: "bool \<Rightarrow> close_pc \<Rightarrow> bool \<Rightarrow> bool \<Rightarrow> bool \<Rightarrow> conn_pc \<Rightarrow> bool" where
  "follows down cl mine hijack poison p \<longleftrightarrow> (cl \<noteq> NotClosing \<longrightarrow> down)
     \<and> (hijack \<longrightarrow> \<not> mine \<and> \<not> early p)
     \<and> (hijack \<or> mine \<or> early p \<or> ended p)
     \<and> (cl = Walked \<or> cl = CloseReturned \<longrightarrow> engaged p \<longrightarrow> poison \<or> hijack)"

definition followed :: "server \<Rightarrow> nat \<Rightarrow> bool" where
  "followed s n \<longleftrightarrow>
     follows (shut s) (closing s) (n \<in> conns s) (n \<in> taken s) (n \<in> kicked s) (thread s n)"

lemma follows_Spawned [simp]: "follows d cl c h k Spawned = follows d cl c h k Absent"
  by (simp add: follows_def)

lemma serve_followed: "serve_step a s = Some s' \<Longrightarrow> followed s m \<Longrightarrow> followed s' m"
  by (cases a) (auto simp: followed_def split: if_splits serve_pc.splits)

lemma walk_follows:
  "follows d ListenerClosed c h k p \<Longrightarrow> follows d Walked c h (k \<or> c) p"
  by (cases p) (auto simp: follows_def)

lemma close_followed: "close_step a s = Some s' \<Longrightarrow> followed s m \<Longrightarrow> followed s' m"
proof (cases a)
  case Walk
  then show "close_step a s = Some s' \<Longrightarrow> followed s m \<Longrightarrow> ?thesis"
    using walk_follows by (auto simp: followed_def split: if_splits)
qed (auto simp: followed_def follows_def split: if_splits)

lemma conn_frame:
  "conn_step a n s = Some s' \<Longrightarrow> m \<noteq> n \<Longrightarrow> followed s' m = followed s m"
  by (cases a) (auto simp: followed_def server_defs split: if_splits)

lemma conn_own: "conn_step a n s = Some s' \<Longrightarrow> followed s n \<Longrightarrow> followed s' n"
  by (cases a) (auto simp: followed_def server_defs split: if_splits, auto simp: follows_def)

lemma conn_followed: "conn_step a n s = Some s' \<Longrightarrow> followed s m \<Longrightarrow> followed s' m"
  using conn_frame conn_own by (cases "m = n") blast+

lemma serveconn_followed: "ServeConn n s = Some s' \<Longrightarrow> followed s m \<Longrightarrow> followed s' m"
  by (auto simp: ServeConn_def followed_def split: if_splits)

lemma step_followed: "server_step a s = Some s' \<Longrightarrow> followed s n \<Longrightarrow> followed s' n"
  by (cases a) (auto intro: serve_followed conn_followed close_followed serveconn_followed)

text \<open>Once \<open>Close\<close> has returned, no goroutine of \<open>Serve\<close> gets past the check of the context, and a closed
  listener leaves at most one that is alive: the connection \<open>Serve\<close> had accepted and not yet counted.\<close>

definition drained :: "server \<Rightarrow> nat \<Rightarrow> bool" where
  "drained s n \<longleftrightarrow> (closing s = CloseReturned \<and> n \<in> tracked s \<longrightarrow> \<not> engaged (thread s n))"

definition one_left :: "server \<Rightarrow> bool" where
  "one_left s \<longleftrightarrow> (closing s = CloseReturned \<and> listener s = ListenerDown \<longrightarrow>
     wg s \<le> 1 \<and> (\<forall>m. serving s = Accepted m \<longrightarrow> wg s = 0))"

lemma gone_not_engaged: "alive T t = {} \<Longrightarrow> n \<in> T \<Longrightarrow> \<not> engaged (t n)"
  by (cases "t n") (auto simp: alive_def)

lemma step_drained:
  assumes "server_step a s = Some s'" "counted s" "followed s n" "drained s n"
  shows "drained s' n"
proof (cases a)
  case (Serving b)
  with assms show ?thesis by (cases b) (auto simp: drained_def split: if_splits serve_pc.splits)
next
  case (Closing b)
  with assms show ?thesis
    by (cases b) (auto simp: drained_def counted_def gone_not_engaged split: if_splits)
next
  case (Conn b m)
  have "closing s = CloseReturned \<Longrightarrow> shut s" using assms(3) by (simp add: followed_def follows_def)
  with assms(1,4) Conn show ?thesis
    by (cases b; cases "m = n") (auto simp: drained_def server_defs split: if_splits)
next
  case (CallServeConn m)
  with assms show ?thesis by (auto simp: ServeConn_def drained_def split: if_splits)
qed

lemma step_one_left:
  assumes "server_step a s = Some s'" "counted s" "one_left s"
  shows "one_left s'"
proof (cases a)
  case (Serving b)
  with assms show ?thesis by (cases b) (auto simp: one_left_def split: if_splits serve_pc.splits)
next
  case (Closing b)
  with assms show ?thesis by (cases b) (auto simp: one_left_def split: if_splits)
next
  case (Conn b m)
  with assms show ?thesis by (cases b) (auto simp: one_left_def server_defs split: if_splits)
next
  case (CallServeConn m)
  with assms show ?thesis by (auto simp: ServeConn_def one_left_def split: if_splits)
qed

lemma reached_inv: "reached s \<Longrightarrow> counted s \<and> (\<forall>n. followed s n) \<and> (\<forall>n. drained s n) \<and> one_left s"
proof (induction rule: reached.induct)
  case init
  show ?case
    by (simp add: counted_def followed_def follows_def drained_def one_left_def New_server_def alive_def)
next
  case (step s a s')
  then show ?case using step_counted step_followed step_drained step_one_left by blast
qed

text \<open>Only a connection that has its handshake to make is in one.\<close>

definition shaky :: "server \<Rightarrow> nat \<Rightarrow> bool" where
  "shaky s n \<longleftrightarrow> (\<forall>b. thread s n = Shaking b \<longrightarrow> n \<in> secure s)"

lemma step_shaky: "server_step a s = Some s' \<Longrightarrow> shaky s n \<Longrightarrow> shaky s' n"
proof (cases a)
  case (Serving b)
  then show "server_step a s = Some s' \<Longrightarrow> shaky s n \<Longrightarrow> shaky s' n"
    by (cases b) (auto simp: shaky_def split: if_splits serve_pc.splits)
next
  case (Closing b)
  then show "server_step a s = Some s' \<Longrightarrow> shaky s n \<Longrightarrow> shaky s' n"
    by (cases b) (auto simp: shaky_def split: if_splits)
next
  case (Conn b m)
  then show "server_step a s = Some s' \<Longrightarrow> shaky s n \<Longrightarrow> shaky s' n"
    by (cases b) (auto simp: shaky_def server_defs split: if_splits)
qed (auto simp: ServeConn_def shaky_def split: if_splits)

lemma reached_shaky: "reached s \<Longrightarrow> shaky s n"
  by (induction rule: reached.induct) (auto simp: shaky_def New_server_def intro: step_shaky [unfolded shaky_def, rule_format])

section \<open>Close comes to an end\<close>

text \<open>The steps that need no peer. They count on the application: \<open>NewSession\<close> returns a session
  (\<open>Session_ok\<close>), and the session's methods and the hooks return (\<open>Turn\<close>, \<open>Push\<close>, \<open>Ask\<close>). A read of a kicked
  connection ends by itself, its handshake too; a write ends by itself under a write deadline, and
  \<open>Accept\<close> on a closed listener fails. Everything that takes bytes of a peer, or a peer to take bytes, a
  new connection, a choice of the application or a failure is left out.\<close>

fun peerless :: "act \<Rightarrow> server \<Rightarrow> bool" where
  "peerless (Serving AcceptError) s = (listener s = ListenerDown)"
| "peerless (Serving a) s = (a \<in> {Spawn, Elapsed, Aborted})"
| "peerless (Closing a) s = True"
| "peerless (Conn a n) s =
     (if a \<in> {Read_failed, Answered, Shake_failed} then n \<in> kicked s
      else if a = Write_failed then write_limit s
      else a \<in> {Enter, Session_ok, Check, Blank, Push, Ask, Turn, Unregister, Done})"
| "peerless _ s = False"

fun peerless_run :: "act list \<Rightarrow> server \<Rightarrow> server option" where
  "peerless_run [] s = Some s"
| "peerless_run (a # as) s =
     (if peerless a s then Option.bind (server_step a s) (peerless_run as) else None)"

lemma peerless_run_append:
  "peerless_run (xs @ ys) s = Option.bind (peerless_run xs s) (peerless_run ys)"
  by (induction xs arbitrary: s) (auto split: Option.bind_splits)

lemma peerless_reached: "peerless_run as s = Some s' \<Longrightarrow> reached s \<Longrightarrow> reached s'"
  by (induction as arbitrary: s) (auto split: Option.bind_splits if_splits intro: reached.step)

text \<open>What can hold \<open>Close\<close> after its walk: a connection the kick did not reach, either hijacked and in a
  read, or with its TLS handshake before it. The handshake has no deadline of its own, and the walk kicks
  only what is registered by then.\<close>

definition held :: "server \<Rightarrow> nat \<Rightarrow> bool" where
  "held s n \<longleftrightarrow> n \<notin> kicked s
     \<and> (n \<in> taken s \<and> thread s n \<in> {Reading, Waiting}
      \<or> n \<in> secure s \<and> thread s n \<in> {Spawned, Setup, Shaking True, Shaking False})"

text \<open>The way out of a connection during a shutdown; \<open>h\<close> says that a callback hijacked it, \<open>tls\<close> that its
  handshake is still to come.\<close>

definition exit_turn :: "bool \<Rightarrow> conn_act list" where
  "exit_turn h = Turn # (if h then [] else [Write_failed]) @ [Unregister, Done]"

fun exit_path :: "bool \<Rightarrow> bool \<Rightarrow> conn_pc \<Rightarrow> conn_act list" where
  "exit_path h tls Spawned = [Enter, Session_ok, if tls then Shake_failed else Write_failed, Unregister, Done]"
| "exit_path h tls Setup = [Session_ok, if tls then Shake_failed else Write_failed, Unregister, Done]"
| "exit_path h tls (Shaking b) = [Shake_failed, Unregister, Done]"
| "exit_path h tls Greeting = [Write_failed, Unregister, Done]"
| "exit_path h tls LoopTop = [Check, Write_failed, Unregister, Done]"
| "exit_path h tls Reading = [Read_failed, Write_failed, Unregister, Done]"
| "exit_path h tls Running = exit_turn h"
| "exit_path h tls Waiting = Answered # exit_turn h"
| "exit_path h tls Pushing = Write_failed # exit_turn h"
| "exit_path h tls Flushing = [Write_failed, Unregister, Done]"
| "exit_path h tls Parting = [Write_failed, Unregister, Done]"
| "exit_path h tls Unwinding = [Unregister, Done]"
| "exit_path h tls Unregistered = [Done]"
| "exit_path h tls _ = []"

lemma leaves:
  assumes "shut s" "write_limit s" "n \<in> tracked s" "thread s n \<noteq> Absent" "thread s n \<noteq> Gone" "\<not> held s n"
    and "thread s n \<in> {Reading, Waiting} \<Longrightarrow> n \<in> kicked s \<or> n \<in> taken s"
    and "shaky s n"
  shows "\<exists>s'. peerless_run (map (\<lambda>a. Conn a n) (exit_path (n \<in> taken s) (n \<in> secure s) (thread s n))) s = Some s'
    \<and> thread s' = (thread s)(n := Gone) \<and> wg s' = wg s - 1 \<and> closing s' = closing s
    \<and> tracked s' = tracked s \<and> kicked s' = kicked s \<and> taken s' = taken s \<and> secure s' = secure s
    \<and> write_limit s' = write_limit s"
  using assms by (cases "thread s n") (auto simp: server_defs held_def exit_turn_def shaky_def)

lemma after_walk:
  assumes "reached s" "closing s = Walked \<or> closing s = CloseReturned" "engaged (thread s n)"
  shows "n \<in> kicked s \<or> n \<in> taken s"
proof -
  have "followed s n" using reached_inv [OF assms(1)] by blast
  with assms(2,3) show ?thesis by (auto simp: followed_def follows_def)
qed

lemma closes:
  "reached s \<Longrightarrow> closing s = Walked \<Longrightarrow> write_limit s \<Longrightarrow> (\<And>n. n \<in> tracked s \<Longrightarrow> \<not> held s n)
     \<Longrightarrow> \<exists>as s'. peerless_run as s = Some s' \<and> closing s' = CloseReturned
           \<and> {n \<in> tracked s'. thread s' n \<noteq> Gone} = {}"
proof (induction "wg s" arbitrary: s)
  case 0
  have "counted s" using reached_inv [OF 0(2)] by blast
  then have "alive (tracked s) (thread s) = {}" using 0(1) by (metis alive_simps(4) card_eq_0_iff counted_def)
  then show ?case using 0 by (intro exI [of _ "[Closing Wait_all]"]) (auto simp: alive_def)
next
  case (Suc k)
  from reached_inv [OF Suc(3)] have c: "counted s" and f: "\<And>n. followed s n" by blast+
  then have "alive (tracked s) (thread s) \<noteq> {}" using Suc(2) by (auto simp: counted_def)
  then obtain n where n: "n \<in> tracked s" "thread s n \<noteq> Gone" by auto
  have "shut s" using f [of n] Suc(4) by (simp add: followed_def follows_def)
  moreover have "thread s n \<noteq> Absent" using c n(1) by (simp add: counted_def)
  moreover have "n \<in> kicked s \<or> n \<in> taken s" if "thread s n \<in> {Reading, Waiting}"
    by (rule after_walk [OF Suc(3)]) (use Suc(4) that in auto)
  ultimately obtain as s1 where s1: "peerless_run as s = Some s1" "thread s1 = (thread s)(n := Gone)"
      "wg s1 = wg s - 1" "closing s1 = closing s" "tracked s1 = tracked s" "kicked s1 = kicked s"
      "taken s1 = taken s" "secure s1 = secure s" "write_limit s1 = write_limit s"
    using leaves [OF _ Suc(5) n(1) _ n(2) Suc(6) [OF n(1)] _ reached_shaky [OF Suc(3)]] by blast
  have "\<not> held s1 m" if "m \<in> tracked s1" for m
    using Suc(6) [of m] that s1 by (auto simp: held_def)
  moreover have "reached s1" using peerless_reached [OF s1(1) Suc(3)] .
  moreover have "k = wg s1" "closing s1 = Walked" "write_limit s1" using Suc(2,4,5) s1(3,4,9) by simp_all
  ultimately obtain bs s2 where "peerless_run bs s1 = Some s2" "closing s2 = CloseReturned"
      "{n \<in> tracked s2. thread s2 n \<noteq> Gone} = {}"
    using Suc(1) [of s1] by blast
  then show ?case using s1(1) by (intro exI [of _ "as @ bs"]) (simp add: peerless_run_append)
qed

text \<open>A connection that holds \<open>Close\<close> goes on holding it as long as no peer helps.\<close>

lemma held_alive: "held s n \<Longrightarrow> thread s n \<noteq> Gone"
  by (auto simp: held_def)

lemma conn_keeps:
  assumes "conn_step b m s = Some s'"
  shows "closing s' = closing s" "tracked s' = tracked s" "kicked s' = kicked s" "secure s' = secure s"
    "n \<noteq> m \<Longrightarrow> thread s' n = thread s n" "n \<noteq> m \<Longrightarrow> n \<in> taken s' \<longleftrightarrow> n \<in> taken s"
  using assms by (cases b; auto simp: server_defs split: if_splits)+

lemma held_own:
  assumes "conn_step b n s = Some s'" "peerless (Conn b n) s" "held s n"
  shows "held s' n"
proof -
  have k: "n \<notin> kicked s" using assms(3) by (simp add: held_def)
  consider "n \<in> taken s" "thread s n = Reading \<or> thread s n = Waiting" | "n \<in> secure s" "thread s n = Spawned"
    | "n \<in> secure s" "thread s n = Setup" | g where "n \<in> secure s" "thread s n = Shaking g"
    using assms(3) by (auto simp: held_def)
  then show ?thesis
  proof cases
    case 1
    with k assms(1,2) show ?thesis by (cases b) (auto simp: server_defs)
  next
    case 2
    with k assms(1,2) show ?thesis by (cases b) (auto simp: server_defs held_def)
  next
    case 3
    with k assms(1,2) show ?thesis by (cases b) (auto simp: server_defs held_def)
  next
    case 4
    with k assms(1,2) show ?thesis by (cases b) (auto simp: server_defs)
  qed
qed

lemma held_step:
  assumes "server_step a s = Some s'" "peerless a s" "counted s" "closing s = Walked" "n \<in> tracked s" "held s n"
  shows "closing s' = Walked \<and> n \<in> tracked s' \<and> held s' n"
proof (cases a)
  case (Serving b)
  with assms show ?thesis by (cases b) (auto simp: held_def counted_def split: if_splits serve_pc.splits)
next
  case (Closing b)
  have "n \<in> alive (tracked s) (thread s)" using assms(5,6) held_alive by simp
  then have "wg s \<noteq> 0" using assms(3) by (auto simp: counted_def card_eq_0_iff)
  with assms Closing show ?thesis by (cases b) (auto split: if_splits)
next
  case (Conn b m)
  show ?thesis
  proof (cases "m = n")
    case True
    with assms Conn show ?thesis by (auto intro: held_own simp: conn_keeps)
  next
    case False
    with assms(1,4-6) Conn conn_keeps(5,6) [of b m s s' n] show ?thesis by (simp add: held_def conn_keeps)
  qed
qed (use assms in simp)

lemma held_run:
  "peerless_run as s = Some s' \<Longrightarrow> counted s \<Longrightarrow> closing s = Walked \<Longrightarrow> n \<in> tracked s \<Longrightarrow> held s n
     \<Longrightarrow> closing s' = Walked"
proof (induction as arbitrary: s)
  case (Cons a as)
  then obtain s1 where s1: "peerless a s" "server_step a s = Some s1" "peerless_run as s1 = Some s'"
    by (auto split: if_splits Option.bind_splits)
  from held_step [OF s1(2,1) Cons.prems(2-5)] step_counted [OF s1(2) Cons.prems(2)] Cons.IH [OF s1(3)]
  show ?case by blast
qed simp

text \<open>Nothing is kicked before the walk.\<close>

lemma unkicked:
  "reached s \<Longrightarrow> closing s = Walked \<or> closing s = CloseReturned \<or> kicked s = {}"
proof (induction rule: reached.induct)
  case (step s a s')
  then show ?case
  proof (cases a)
    case (Serving b)
    with step show ?thesis by (cases b) (auto split: if_splits serve_pc.splits)
  next
    case (Closing b)
    with step show ?thesis by (cases b) (auto split: if_splits)
  next
    case (Conn b m)
    with step show ?thesis by (cases b) (auto simp: server_defs split: if_splits)
  qed (auto simp: ServeConn_def split: if_splits)
qed (simp add: New_server_def)

section \<open>The back-off\<close>

lemma next_backoff_iter: "(next_backoff ^^ Suc k) 0 = min maxBackoff (5000000 * 2 ^ k)"
proof (induction k)
  case (Suc k)
  have "(1::int) \<le> 2 ^ k" by simp
  with Suc show ?case by (auto simp: next_backoff_def maxBackoff_def min_def)
qed (simp add: next_backoff_def maxBackoff_def)

definition failures :: "nat \<Rightarrow> act list" where
  "failures k = concat (replicate k [Serving AcceptError, Serving Elapsed])"

lemma run_append: "run (xs @ ys) s = Option.bind (run xs s) (run ys)"
  by (induction xs arbitrary: s) (auto split: Option.bind_splits)

lemma failures_Suc: "failures (Suc k) = failures k @ [Serving AcceptError, Serving Elapsed]"
  by (induction k) (simp_all add: failures_def)

lemma failures_run:
  "serving s = Accepting \<Longrightarrow> \<not> shut s
     \<Longrightarrow> run (failures k) s = Some (s\<lparr>backoff := (next_backoff ^^ k) (backoff s)\<rparr>)"
proof (induction k)
  case (Suc k)
  then show ?case by (simp add: failures_Suc run_append)
qed (simp add: failures_def)

section \<open>Properties\<close>

lemma run_reached: "run as s = Some s' \<Longrightarrow> reached s \<Longrightarrow> reached s'"
  by (induction as arbitrary: s) (auto split: Option.bind_splits intro: reached.step)

text \<open>A run for the witnesses: one connection in a command, one in a read, one hijacked, one of a TLS listener
  accepted and not yet registered; then \<open>Close\<close>, up to its walk.\<close>

definition connects :: "nat \<Rightarrow> act list" where
  "connects n = [Serving (AcceptOk n), Serving Spawn, Conn Enter n, Conn Session_ok n, Conn Greeted n,
     Conn Check n]"

definition busy_run :: "act list" where
  "busy_run = Serving Call # connects 0 @ connects 1 @ connects 2
     @ [Conn Got_line 0, Conn Got_line 2, Conn Take 2, Closing Cancel_ctx, Closing Close_listener]"

definition tls_run :: "act list" where
  "tls_run = Serving Call # connects 0 @ [Serving (AcceptOk 3), Serving Spawn, Closing Cancel_ctx,
     Closing Close_listener]"

definition shutdown_run :: "act list" where
  "shutdown_run = map Closing [Cancel_ctx, Close_listener, Walk, Wait_all]"

abbreviation sample_server :: server where
  "sample_server \<equiv> New_server True {3}"

text \<open>A connection is blocked in a read that no kick ended.\<close>

definition blocked :: "server \<Rightarrow> nat \<Rightarrow> bool" where
  "blocked s n \<longleftrightarrow> n \<notin> kicked s \<and> thread s n \<in> {Reading, Waiting, Shaking True, Shaking False}"

text \<open>What has been kicked, hijacked or has left stays so.\<close>

definition settled :: "server \<Rightarrow> nat \<Rightarrow> bool" where
  "settled s n \<longleftrightarrow> n \<in> kicked s \<or> n \<in> taken s \<or> ended (thread s n)"

lemma settled_step: "server_step a s = Some s' \<Longrightarrow> settled s n \<Longrightarrow> settled s' n"
proof (cases a)
  case (Serving b)
  then show "server_step a s = Some s' \<Longrightarrow> settled s n \<Longrightarrow> settled s' n"
    by (cases b) (auto simp: settled_def split: if_splits serve_pc.splits)
next
  case (Closing b)
  then show "server_step a s = Some s' \<Longrightarrow> settled s n \<Longrightarrow> settled s' n"
    by (cases b) (auto simp: settled_def split: if_splits)
next
  case (Conn b m)
  then show "server_step a s = Some s' \<Longrightarrow> settled s n \<Longrightarrow> settled s' n"
    by (cases b) (auto simp: settled_def server_defs split: if_splits)
qed (auto simp: ServeConn_def settled_def split: if_splits)

lemma settled_run: "run as s = Some s' \<Longrightarrow> settled s n \<Longrightarrow> settled s' n"
  by (induction as arbitrary: s) (auto split: Option.bind_splits intro: settled_step)

lemma walked_step: "server_step a s = Some s' \<Longrightarrow> closing s = Walked \<or> closing s = CloseReturned
    \<Longrightarrow> closing s' = Walked \<or> closing s' = CloseReturned"
proof (cases a)
  case (Serving b)
  then show "server_step a s = Some s' \<Longrightarrow> closing s = Walked \<or> closing s = CloseReturned \<Longrightarrow> ?thesis"
    by (cases b) (auto split: if_splits serve_pc.splits)
next
  case (Closing b)
  then show "server_step a s = Some s' \<Longrightarrow> closing s = Walked \<or> closing s = CloseReturned \<Longrightarrow> ?thesis"
    by (cases b) (auto split: if_splits)
qed (auto simp: conn_keeps ServeConn_def split: if_splits)

lemma walked_run: "run as s = Some s' \<Longrightarrow> closing s = Walked \<or> closing s = CloseReturned
    \<Longrightarrow> closing s' = Walked \<or> closing s' = CloseReturned"
  by (induction as arbitrary: s) (auto split: Option.bind_splits dest: walked_step)

text \<open>C13. The walk of \<open>Close\<close> kicks every connection between its registration and its end but the hijacked
  ones. Whatever the interleaving afterwards, a connection blocked in a read that the kick did not end is
  one a callback hijacked, or one that was not registered yet at the walk and is in the handshake of a TLS
  listener; no read of a command loop and of a command is left over otherwise.\<close>

theorem close_kicks_readers:
  assumes "reached s" and "server_step (Closing Walk) s = Some s1" and "run as s1 = Some s2"
  shows "(\<not> early (thread s n) \<and> \<not> ended (thread s n) \<longrightarrow> (n \<in> kicked s1 \<longleftrightarrow> n \<notin> taken s))
    \<and> (blocked s2 n \<longrightarrow> n \<in> taken s2
        \<or> early (thread s n) \<and> n \<in> secure s2 \<and> thread s2 n \<in> {Shaking True, Shaking False})"
proof -
  have f: "followed s n" using reached_inv [OF assms(1)] by blast
  have c: "closing s = ListenerClosed" "closing s1 = Walked" "kicked s1 = kicked s \<union> conns s"
      "taken s1 = taken s" "thread s1 = thread s"
    using assms(2) by (auto split: if_splits)
  have k: "\<not> early (thread s n) \<and> \<not> ended (thread s n) \<longrightarrow> (n \<in> kicked s1 \<longleftrightarrow> n \<notin> taken s)"
    using f unkicked [OF assms(1)] c by (auto simp: followed_def follows_def)
  have r: "reached s2" by (rule run_reached [OF assms(3) reached.step [OF assms(1,2)]])
  have "n \<in> taken s2 \<or> early (thread s n) \<and> n \<in> secure s2 \<and> thread s2 n \<in> {Shaking True, Shaking False}"
    if b: "blocked s2 n"
  proof (cases "thread s2 n = Reading \<or> thread s2 n = Waiting")
    case True
    then have e: "engaged (thread s2 n)" by auto
    have "closing s2 = Walked \<or> closing s2 = CloseReturned" by (rule walked_run [OF assms(3)]) (simp add: c)
    from after_walk [OF r this e] b show ?thesis by (auto simp: blocked_def)
  next
    case False
    then have sh: "thread s2 n \<in> {Shaking True, Shaking False}" using b by (simp add: blocked_def)
    then have "n \<in> secure s2" using reached_shaky [OF r, of n] by (auto simp: shaky_def)
    moreover have "n \<in> taken s2" if "\<not> early (thread s n)"
    proof -
      have "settled s1 n" using k that c by (auto simp: settled_def)
      from settled_run [OF assms(3) this] sh b show ?thesis by (auto simp: settled_def blocked_def)
    qed
    ultimately show ?thesis using sh by blast
  qed
  with k show ?thesis by blast
qed

theorem close_kicks_readers_witness:
  "(\<exists>s s1. run busy_run sample_server = Some s \<and> server_step (Closing Walk) s = Some s1
     \<and> 2 \<in> taken s \<and> 2 \<notin> kicked s1 \<and> 1 \<in> kicked s1)
   \<and> (\<exists>s s1 s2. run tls_run sample_server = Some s \<and> server_step (Closing Walk) s = Some s1
     \<and> run [Conn Enter 3, Conn Session_ok 3] s1 = Some s2 \<and> blocked s2 3 \<and> early (thread s 3))"
proof
  have "map_option (\<lambda>s. (closing s, 2 \<in> taken s, 1 \<in> taken s, thread s 1, thread s 2)) (run busy_run sample_server)
    = Some (ListenerClosed, True, False, Reading, Running)" by code_simp
  then obtain s where s: "run busy_run sample_server = Some s" "closing s = ListenerClosed" "2 \<in> taken s"
      "1 \<notin> taken s" "thread s 1 = Reading" "thread s 2 = Running" by auto
  obtain s1 where s1: "server_step (Closing Walk) s = Some s1" using s(2) by simp
  have r: "reached s" by (rule run_reached [OF s(1) reached.init])
  have e: "run [] s1 = Some s1" by simp
  have "2 \<notin> kicked s1" "1 \<in> kicked s1"
    using close_kicks_readers [OF r s1 e, of 2] close_kicks_readers [OF r s1 e, of 1] s by auto
  with s s1 show "\<exists>s s1. run busy_run sample_server = Some s \<and> server_step (Closing Walk) s = Some s1
     \<and> 2 \<in> taken s \<and> 2 \<notin> kicked s1 \<and> 1 \<in> kicked s1" by blast
next
  have "map_option (\<lambda>s. (closing s, thread s 3)) (run tls_run sample_server) = Some (ListenerClosed, Spawned)"
    by code_simp
  then obtain s where s: "run tls_run sample_server = Some s" "closing s = ListenerClosed" "thread s 3 = Spawned"
    by auto
  obtain s1 where s1: "server_step (Closing Walk) s = Some s1" using s(2) by simp
  have "map_option (\<lambda>s. (3 \<in> kicked s, thread s 3))
      (run (tls_run @ [Closing Walk, Conn Enter 3, Conn Session_ok 3]) sample_server) = Some (False, Shaking True)"
    by code_simp
  then obtain s2 where s2: "run [Conn Enter 3, Conn Session_ok 3] s1 = Some s2" "3 \<notin> kicked s2"
      "thread s2 3 = Shaking True" using s(1) s1 by (auto simp: run_append)
  then have "blocked s2 3" by (simp add: blocked_def)
  with s s1 s2 show "\<exists>s s1 s2. run tls_run sample_server = Some s \<and> server_step (Closing Walk) s = Some s1
     \<and> run [Conn Enter 3, Conn Session_ok 3] s1 = Some s2 \<and> blocked s2 3 \<and> early (thread s 3)" by auto
qed

text \<open>C12. When \<open>Close\<close> has returned, no connection of \<open>Serve\<close> is in its command loop - in the loop's read, in
  a command or in a response - nor will one be; and if \<open>Close\<close> closed the listener, at most one is still
  alive: that accepted while \<open>Close\<close> ran.\<close>

theorem close_waits:
  assumes "reached s" "closing s = CloseReturned"
  shows "(\<forall>n. n \<in> tracked s \<longrightarrow> \<not> engaged (thread s n))
    \<and> (listener s = ListenerDown \<longrightarrow> card {n \<in> tracked s. thread s n \<noteq> Gone} \<le> 1)"
proof -
  have i: "counted s" "\<And>n. drained s n" "one_left s" using reached_inv [OF assms(1)] by blast+
  have "\<not> engaged (thread s n)" if "n \<in> tracked s" for n
    using i(2) [of n] that assms(2) by (simp add: drained_def)
  moreover have "listener s = ListenerDown \<Longrightarrow> card {n \<in> tracked s. thread s n \<noteq> Gone} \<le> 1"
    using i(1,3) assms(2) by (simp add: counted_def one_left_def alive_def)
  ultimately show ?thesis by blast
qed

text \<open>A run in which \<open>Close\<close> overtakes an accepted connection.\<close>

definition late_run :: "act list" where
  "late_run = [Serving Call, Serving (AcceptOk 0)] @ shutdown_run @ [Serving Spawn, Conn Enter 0]"

theorem close_waits_witness:
  "\<exists>s. run late_run sample_server = Some s \<and> closing s = CloseReturned \<and> thread s 0 = Setup
     \<and> card {n \<in> tracked s. thread s n \<noteq> Gone} \<le> 1 \<and> \<not> engaged (thread s 0)"
proof -
  have "map_option (\<lambda>s. (closing s, listener s, thread s 0, 0 \<in> tracked s)) (run late_run sample_server)
    = Some (CloseReturned, ListenerDown, Setup, True)" by code_simp
  then obtain s where s: "run late_run sample_server = Some s" "closing s = CloseReturned"
      "listener s = ListenerDown" "thread s 0 = Setup" "0 \<in> tracked s" by auto
  from close_waits [OF run_reached [OF s(1) reached.init] s(2)] s show ?thesis by blast
qed

text \<open>C8. When \<open>Close\<close> can return: with a write timeout, from any state after its walk, the goroutines' own
  steps - no peer sends or takes a byte, the callbacks of the application return - lead to its return, with
  every goroutine of \<open>Serve\<close> ended, exactly when no connection holds it; and those that do are the
  connections the kick missed: hijacked ones left in a read of the library, and connections of a TLS
  listener that were not registered at the walk, in whose handshake a silent client keeps \<open>Close\<close> waiting.\<close>

theorem close_can_return:
  assumes "reached s" and "closing s = Walked" and "write_limit s"
  shows "(\<forall>n\<in>tracked s. \<not> held s n) \<longleftrightarrow>
      (\<exists>as s'. peerless_run as s = Some s' \<and> closing s' = CloseReturned
        \<and> {n \<in> tracked s'. thread s' n \<noteq> Gone} = {})"
proof
  assume "\<forall>n\<in>tracked s. \<not> held s n"
  then show "\<exists>as s'. peerless_run as s = Some s' \<and> closing s' = CloseReturned
      \<and> {n \<in> tracked s'. thread s' n \<noteq> Gone} = {}"
    using closes [OF assms] by blast
next
  have "counted s" using reached_inv [OF assms(1)] by blast
  then show "\<forall>n\<in>tracked s. \<not> held s n" if "\<exists>as s'. peerless_run as s = Some s' \<and> closing s' = CloseReturned
      \<and> {n \<in> tracked s'. thread s' n \<noteq> Gone} = {}"
    using that held_run [OF _ _ assms(2)] by fastforce
qed

theorem close_can_return_witness:
  "(\<exists>s as s'. run (busy_run @ [Closing Walk]) sample_server = Some s \<and> thread s 0 = Running \<and> thread s 1 = Reading
     \<and> peerless_run as s = Some s' \<and> closing s' = CloseReturned)
   \<and> (\<exists>s. run (tls_run @ [Closing Walk]) sample_server = Some s
     \<and> \<not> (\<exists>as s'. peerless_run as s = Some s' \<and> closing s' = CloseReturned
         \<and> {n \<in> tracked s'. thread s' n \<noteq> Gone} = {}))"
proof
  have "map_option (\<lambda>s. (closing s, write_limit s, tracked s = {0, 1, 2}, thread s 0, thread s 1, thread s 2))
      (run (busy_run @ [Closing Walk]) sample_server) = Some (Walked, True, True, Running, Reading, Running)"
    "map_option (\<lambda>s. (taken s = {2}, secure s)) (run (busy_run @ [Closing Walk]) sample_server) = Some (True, {3})"
    by code_simp+
  then obtain s where s: "run (busy_run @ [Closing Walk]) sample_server = Some s" "closing s = Walked"
      "write_limit s" "tracked s = {0, 1, 2}" "thread s 0 = Running" "thread s 1 = Reading" "thread s 2 = Running"
      "taken s = {2}" "secure s = {3}" by auto
  have "\<forall>n\<in>tracked s. \<not> held s n" using s(4-9) by (simp add: held_def)
  with close_can_return [OF run_reached [OF s(1) reached.init] s(2,3)] obtain as s' where
    "peerless_run as s = Some s'" "closing s' = CloseReturned" by blast
  with s(1,5,6) show "\<exists>s as s'. run (busy_run @ [Closing Walk]) sample_server = Some s \<and> thread s 0 = Running
     \<and> thread s 1 = Reading \<and> peerless_run as s = Some s' \<and> closing s' = CloseReturned" by blast
next
  have "map_option (\<lambda>s. (closing s, write_limit s, 3 \<in> tracked s, 3 \<in> secure s, 3 \<in> kicked s, thread s 3))
      (run (tls_run @ [Closing Walk]) sample_server) = Some (Walked, True, True, True, False, Spawned)" by code_simp
  then obtain s where s: "run (tls_run @ [Closing Walk]) sample_server = Some s" "closing s = Walked"
      "write_limit s" "3 \<in> tracked s" "3 \<in> secure s" "3 \<notin> kicked s" "thread s 3 = Spawned" by auto
  have "held s 3" using s(5-7) by (simp add: held_def)
  with close_can_return [OF run_reached [OF s(1) reached.init] s(2,3)] s(1,4) show
    "\<exists>s. run (tls_run @ [Closing Walk]) sample_server = Some s
     \<and> \<not> (\<exists>as s'. peerless_run as s = Some s' \<and> closing s' = CloseReturned
         \<and> {n \<in> tracked s'. thread s' n \<noteq> Gone} = {})" by blast
qed

text \<open>The \<open>k\<close>-th \<open>Accept\<close> error in a row makes \<open>Serve\<close> wait 5 ms doubled \<open>k - 1\<close> times, at most a
  second, and the next accepted connection resets the wait: a failing listener never spins the loop.\<close>

lemma backoff_exact:
  assumes "serving s = Accepting" "\<not> shut s" "backoff s = 0" "thread s n = Absent" "listener s = ListenerOpen"
  shows "map_option (\<lambda>s. (backoff s, serving s)) (run (failures k @ [Serving AcceptError]) s)
      = Some (min 1000000000 (5000000 * 2 ^ k), Backing)
    \<and> map_option (\<lambda>s. (backoff s, thread s n)) (run (failures k @ [Serving (AcceptOk n), Serving Spawn]) s)
      = Some (0, Spawned)"
  using assms next_backoff_iter [of k] failures_run [OF assms(1,2), of k]
  by (simp add: run_append maxBackoff_def)

text \<open>A \<open>Serve\<close> that is called once \<open>Close\<close> is past the listener is not stopped by it: its listener stays open,
  and until an \<open>Accept\<close> fails it goes on accepting; what it accepts gets to no command.\<close>

definition open_shut :: "server \<Rightarrow> bool" where
  "open_shut s \<longleftrightarrow> listener s = ListenerOpen \<and> closing s \<in> {ListenerClosed, Walked, CloseReturned}"

lemma open_shut_step: "server_step a s = Some s' \<Longrightarrow> open_shut s \<Longrightarrow> open_shut s'"
proof (cases a)
  case (Serving b)
  then show "server_step a s = Some s' \<Longrightarrow> open_shut s \<Longrightarrow> open_shut s'"
    by (cases b) (auto simp: open_shut_def split: if_splits serve_pc.splits)
next
  case (Closing b)
  then show "server_step a s = Some s' \<Longrightarrow> open_shut s \<Longrightarrow> open_shut s'"
    by (cases b) (auto simp: open_shut_def split: if_splits)
next
  case (Conn b m)
  then show "server_step a s = Some s' \<Longrightarrow> open_shut s \<Longrightarrow> open_shut s'"
    by (cases b) (auto simp: open_shut_def server_defs split: if_splits)
qed (auto simp: ServeConn_def open_shut_def split: if_splits)

lemma serve_after_close:
  assumes "closing s \<in> {ListenerClosed, Walked, CloseReturned}" "server_step (Serving Call) s = Some s1"
    and "run as s1 = Some s2" "serving s2 = Accepting" "thread s2 n = Absent"
  shows "listener s2 = ListenerOpen \<and> (\<exists>s3. run [Serving (AcceptOk n), Serving Spawn] s2 = Some s3 \<and> thread s3 n = Spawned)"
proof -
  have "open_shut s1" using assms(1,2) by (auto simp: open_shut_def split: if_splits)
  with assms(3) have "open_shut s2"
    by (induction as arbitrary: s1) (auto split: Option.bind_splits intro: open_shut_step)
  with assms(4,5) show ?thesis by (simp add: open_shut_def)
qed

end
